theory Spec2Isabelle
  imports
    Main
    "HOL-Library.Char_ord"
    "HOL-Library.List_Lexorder"
    "HOL-Library.Product_Lexorder"
begin

section \<open>Python values used by \<^verbatim>\<open>main.py\<close>\<close>

text \<open>
  The program is one Python module, \<^verbatim>\<open>src/main.py\<close>. Python strings are modelled as
  \<^typ>\<open>string\<close>; a \<^typ>\<open>char\<close> stands for one code point below 256. Exceptions are
  values: a function that may raise returns \<open>exn + 'a\<close>, with \<open>Inl\<close> the exception.
  The functions keep their names, without the leading underscore.
  \<^verbatim>\<open>InvalidVersion\<close> is a subclass of \<^verbatim>\<open>ValueError\<close> in the \<^verbatim>\<open>packaging\<close> library, so a
  handler \<^verbatim>\<open>except ValueError\<close> catches both; no other exception of the model is caught
  by it.
\<close>

datatype exn =
    ValueError string
  | InvalidVersion string
  | KeyError string
  | ConnectionError string
  | FileNotFoundError string

fun is_ValueError :: "exn \<Rightarrow> bool" where
  "is_ValueError (ValueError m) = True"
| "is_ValueError (InvalidVersion m) = True"
| "is_ValueError (KeyError m) = False"
| "is_ValueError (ConnectionError m) = False"
| "is_ValueError (FileNotFoundError m) = False"

text \<open>The double quote character, and a string between double quotes.\<close>

definition dq :: char where
  "dq = CHR 0x22"

definition quoted :: "string \<Rightarrow> string" where
  "quoted s = dq # s @ [dq]"

text \<open>
  The character classes of Python's \<^verbatim>\<open>re\<close> on \<^verbatim>\<open>str\<close> patterns, for code points below
  256: \<^verbatim>\<open>\s\<close> (tab, line feed, vertical tab, form feed, carriage return, the four
  separators 28 to 31, space, 133 and 160), \<^verbatim>\<open>[0-9]\<close>, and \<^verbatim>\<open>.\<close>, which matches every
  character but the line feed.
\<close>

definition is_space :: "char \<Rightarrow> bool" where
  "is_space c \<longleftrightarrow>
     c \<in> set [CHR 0x09, CHR 0x0A, CHR 0x0B, CHR 0x0C, CHR 0x0D, CHR 0x1C, CHR 0x1D,
               CHR 0x1E, CHR 0x1F, CHR 0x20, CHR 0x85, CHR 0xA0]"

definition is_digit :: "char \<Rightarrow> bool" where
  "is_digit c \<longleftrightarrow> c \<in> set ''0123456789''"

definition is_dot_char :: "char \<Rightarrow> bool" where
  "is_dot_char c \<longleftrightarrow> c \<noteq> CHR 0x0A"

section \<open>A backtracking matcher, as lists of successes\<close>

text \<open>
  A regular expression is matched by backtracking: at every choice the engine takes the
  first alternative and comes back to the next one when the rest of the pattern fails.
  A piece of a pattern is modelled as a function from the text still to read to the list
  of the ways it can match there, in the order in which the engine tries them; each way
  gives the text that is left (and what a group captured). The match the engine reports
  is the first element of the list for the whole pattern.
\<close>

text \<open>A literal: one way if the text starts with it, none otherwise.\<close>

definition lit :: "string \<Rightarrow> string \<Rightarrow> string list" where
  "lit w s = (if take (length w) s = w then [drop (length w) s] else [])"

text \<open>\<^verbatim>\<open>\s*\<close> and \<^verbatim>\<open>\s+\<close>, greedy: the longest run first.\<close>

fun ws_star :: "string \<Rightarrow> string list" where
  "ws_star [] = [] # []"
| "ws_star (c # cs) = (if is_space c then ws_star cs else []) @ [c # cs]"

definition ws_plus :: "string \<Rightarrow> string list" where
  "ws_plus s = (case s of [] \<Rightarrow> [] | c # cs \<Rightarrow> if is_space c then ws_star cs else [])"

text \<open>The group \<^verbatim>\<open>(.*)\<close>, greedy: what it captured and the text that is left.\<close>

fun dot_star :: "string \<Rightarrow> (string \<times> string) list" where
  "dot_star [] = [([], [])]"
| "dot_star (c # cs) =
     (if is_dot_char c then map (apfst ((#) c)) (dot_star cs) else []) @ [([], c # cs)]"

section \<open>Attribute extraction\<close>

text \<open>
  \<^verbatim>\<open>_get_values\<close> compiles \<^verbatim>\<open>'{}\s+=\s+"(.*)";'.format(attribute)\<close> and returns
  \<^verbatim>\<open>regex.findall(text)\<close>. The attribute is inserted into the pattern as it is; the model
  reads it as a literal, which is what the pattern means when the attribute has none of the
  characters that are special in a regular expression (\<open>regex_literal\<close>). The program
  calls it with \<^verbatim>\<open>'pname'\<close> and \<^verbatim>\<open>'version'\<close> only.
\<close>

definition regex_literal :: "string \<Rightarrow> bool" where
  "regex_literal attribute \<longleftrightarrow>
     (\<forall>c \<in> set attribute. c \<notin> set ''.^$*+?{}[]|()'' \<and> c \<noteq> CHR 0x5C)"

text \<open>The ways the pattern matches at the start of \<open>s\<close>: the group and the text left.\<close>

definition attribute_matches :: "string \<Rightarrow> string \<Rightarrow> (string \<times> string) list" where
  "attribute_matches attribute s =
     [(g, r).
        s1 \<leftarrow> lit attribute s,
        s2 \<leftarrow> ws_plus s1,
        s3 \<leftarrow> lit ''='' s2,
        s4 \<leftarrow> ws_plus s3,
        s5 \<leftarrow> lit [dq] s4,
        (g, s6) \<leftarrow> dot_star s5,
        r \<leftarrow> lit (dq # '';'') s6]"

definition match_at :: "string \<Rightarrow> string \<Rightarrow> (string \<times> string) option" where
  "match_at attribute s =
     (case attribute_matches attribute s of [] \<Rightarrow> None | m # ms \<Rightarrow> Some m)"

lemma lit_shorter: "r \<in> set (lit w s) \<Longrightarrow> length r \<le> length s"
  by (auto simp: lit_def split: if_splits)

lemma ws_star_shorter: "r \<in> set (ws_star s) \<Longrightarrow> length r \<le> length s"
  by (induction s) (auto split: if_splits)

lemma ws_plus_shorter: "r \<in> set (ws_plus s) \<Longrightarrow> length r < length s"
  by (cases s) (auto simp: ws_plus_def dest: ws_star_shorter split: if_splits)

lemma dot_star_shorter: "(g, r) \<in> set (dot_star s) \<Longrightarrow> length r \<le> length s"
proof (induction s arbitrary: g)
  case Nil
  then show ?case by simp
next
  case (Cons c cs)
  then show ?case by (fastforce split: if_splits)
qed

lemma attribute_matches_shorter:
  assumes "(g, r) \<in> set (attribute_matches attribute s)"
  shows "length r < length s"
proof -
  from assms obtain s1 s2 s3 s4 s5 s6 where
    "s1 \<in> set (lit attribute s)" "s2 \<in> set (ws_plus s1)" "s3 \<in> set (lit ''='' s2)"
    "s4 \<in> set (ws_plus s3)" "s5 \<in> set (lit [dq] s4)" "(g, s6) \<in> set (dot_star s5)"
    "r \<in> set (lit (dq # '';'') s6)"
    by (auto simp: attribute_matches_def)
  then have "length s1 \<le> length s" "length s2 < length s1" "length s3 \<le> length s2"
    "length s4 < length s3" "length s5 \<le> length s4" "length s6 \<le> length s5"
    "length r \<le> length s6"
    by (auto dest: lit_shorter ws_plus_shorter dot_star_shorter)
  then show ?thesis by linarith
qed

lemma match_at_shorter: "match_at attribute s = Some (g, r) \<Longrightarrow> length r < length s"
  by (auto simp: match_at_def split: list.splits
      intro: attribute_matches_shorter [of g r attribute s])

text \<open>
  \<^verbatim>\<open>findall\<close> scans the text from left to right: where the pattern matches it records the
  group and goes on after the match (which is never empty here), elsewhere it moves one
  character on.
\<close>

function findall :: "string \<Rightarrow> string \<Rightarrow> string list" where
  "findall attribute s =
     (case match_at attribute s of
        Some (g, r) \<Rightarrow> g # findall attribute r
      | None \<Rightarrow> (case s of [] \<Rightarrow> [] | c # cs \<Rightarrow> findall attribute cs))"
  by pat_completeness auto
termination
  by (relation "measure (\<lambda>(attribute, s). length s)") (auto dest: match_at_shorter)

declare findall.simps [simp del]

definition get_values :: "string \<Rightarrow> string \<Rightarrow> string list" where
  "get_values attribute text = findall attribute text"

text \<open>
  \<^verbatim>\<open>_get_unique_value\<close>. The specification calls its two errors \<open>AmbiguousAttribute\<close>
  and \<open>MissingAttribute\<close>; in the code both are a \<^verbatim>\<open>ValueError\<close>, told apart by the
  message.
\<close>

definition AmbiguousAttribute :: "string \<Rightarrow> exn" where
  "AmbiguousAttribute attribute = ValueError (''found too many values for '' @ attribute)"

definition MissingAttribute :: "string \<Rightarrow> exn" where
  "MissingAttribute attribute = ValueError (''no value found for '' @ attribute)"

definition get_unique_value :: "string \<Rightarrow> string \<Rightarrow> exn + string" where
  "get_unique_value attribute text =
     (let values = get_values attribute text;
          n = length values
      in if n > 1 then Inl (AmbiguousAttribute attribute)
         else if n = 1 then Inr (values ! 0)
         else Inl (MissingAttribute attribute))"

section \<open>Decimal numbers and strings\<close>

text \<open>
  \<^verbatim>\<open>str(n)\<close> for a non-negative integer, and \<^verbatim>\<open>int(s)\<close> for a string of ASCII digits
  (leading zeros are accepted, so \<^verbatim>\<open>int("04")\<close> is 4).
\<close>

definition digit_char :: "nat \<Rightarrow> char" where
  "digit_char d = ''0123456789'' ! d"

definition digit_val :: "char \<Rightarrow> nat" where
  "digit_val c = length (takeWhile (\<lambda>d. d \<noteq> c) ''0123456789'')"

fun str_nat :: "nat \<Rightarrow> string" where
  "str_nat n = (if n < 10 then [digit_char n] else str_nat (n div 10) @ [digit_char (n mod 10)])"

declare str_nat.simps [simp del]

definition int_of_digits :: "string \<Rightarrow> nat" where
  "int_of_digits s = foldl (\<lambda>a c. 10 * a + digit_val c) 0 s"

text \<open>
  \<^verbatim>\<open>sep.join(xs)\<close>; \<^verbatim>\<open>s.split(sep)\<close> for a separator of one character and \<^verbatim>\<open>re.split\<close> for
  a class of one character (the pieces between the separators, at least one piece);
  \<^verbatim>\<open>s.rstrip()\<close>; and \<^verbatim>\<open>s.lower()\<close> on ASCII letters.
\<close>

fun join :: "string \<Rightarrow> string list \<Rightarrow> string" where
  "join sep [] = []"
| "join sep [x] = x"
| "join sep (x # y # ys) = x @ sep @ join sep (y # ys)"

fun split_on :: "(char \<Rightarrow> bool) \<Rightarrow> string \<Rightarrow> string list" where
  "split_on q [] = [] # []"
| "split_on q (c # cs) =
     (if q c then [] # split_on q cs
      else (case split_on q cs of [] \<Rightarrow> [c] # [] | p # ps \<Rightarrow> (c # p) # ps))"

definition rstrip :: "string \<Rightarrow> string" where
  "rstrip s = rev (dropWhile is_space (rev s))"

definition lower_char :: "char \<Rightarrow> char" where
  "lower_char c =
     (case map_of (zip ''ABCDEFGHIJKLMNOPQRSTUVWXYZ'' ''abcdefghijklmnopqrstuvwxyz'') c of
        None \<Rightarrow> c
      | Some l \<Rightarrow> l)"

definition lower :: "string \<Rightarrow> string" where
  "lower s = map lower_char s"

section \<open>Versions of the \<^verbatim>\<open>packaging\<close> library\<close>

text \<open>
  The class \<^verbatim>\<open>Version\<close> of \<^verbatim>\<open>main.py\<close> extends \<^verbatim>\<open>packaging.version.Version\<close> by the field
  \<^verbatim>\<open>raw_version\<close>, the string it was made from, and by indexing over the release. It
  inherits the parsing, the comparison and \<^verbatim>\<open>str\<close>, which are therefore modelled after
  the library: a string is matched against the library's pattern, the fields are built
  from the groups of the match, and versions are compared by the key that \<^verbatim>\<open>_cmpkey\<close>
  builds from the fields.

  Inside a key the library uses two objects, \<^verbatim>\<open>Infinity\<close> and \<^verbatim>\<open>NegativeInfinity\<close>, that
  compare above and below every other value.
\<close>

datatype 'a bound = NegativeInfinity | Finite 'a | Infinity

instantiation bound :: (linorder) linorder
begin

definition less_eq_bound :: "'a bound \<Rightarrow> 'a bound \<Rightarrow> bool" where
  "less_eq_bound x y =
     (case x of
        NegativeInfinity \<Rightarrow> True
      | Finite a \<Rightarrow> (case y of NegativeInfinity \<Rightarrow> False | Finite b \<Rightarrow> a \<le> b | Infinity \<Rightarrow> True)
      | Infinity \<Rightarrow> y = Infinity)"

definition less_bound :: "'a bound \<Rightarrow> 'a bound \<Rightarrow> bool" where
  "less_bound x y =
     (case x of
        NegativeInfinity \<Rightarrow> y \<noteq> NegativeInfinity
      | Finite a \<Rightarrow> (case y of NegativeInfinity \<Rightarrow> False | Finite b \<Rightarrow> a < b | Infinity \<Rightarrow> True)
      | Infinity \<Rightarrow> False)"

instance
  by standard (auto simp: less_eq_bound_def less_bound_def split: bound.splits)

end

text \<open>
  The fields of a version: the epoch, the release numbers, the pre-release, post-release
  and development segments (a letter and a number each) and the parts of the local
  segment (numbers or strings).
\<close>

datatype local_part = LocalInt nat | LocalStr string

record version =
  epoch :: nat
  release :: "nat list"
  dev :: "(string \<times> nat) option"
  pre :: "(string \<times> nat) option"
  post :: "(string \<times> nat) option"
  local :: "local_part list option"
  raw_version :: string

text \<open>
  \<^verbatim>\<open>_cmpkey\<close>. Python compares tuples lexicographically, a proper prefix being smaller,
  and strings by code point; these are the orders of pairs, lists and characters used
  here. The release enters the key without its trailing zeros. A version with a
  development segment and neither a pre- nor a post-release segment sorts before all
  pre-releases; a version without a pre-release segment sorts after them.
\<close>

type_synonym cmpkey =
  "nat \<times> nat list \<times> (string \<times> nat) bound \<times> (string \<times> nat) bound \<times> (string \<times> nat) bound
     \<times> (nat bound \<times> string) list bound"

definition cmpkey ::
  "nat \<Rightarrow> nat list \<Rightarrow> (string \<times> nat) option \<Rightarrow> (string \<times> nat) option \<Rightarrow> (string \<times> nat) option
     \<Rightarrow> local_part list option \<Rightarrow> cmpkey" where
  "cmpkey e r p po d l =
     (e,
      rev (dropWhile (\<lambda>x. x = 0) (rev r)),
      (if p = None \<and> po = None \<and> d \<noteq> None then NegativeInfinity
       else case p of None \<Rightarrow> Infinity | Some x \<Rightarrow> Finite x),
      (case po of None \<Rightarrow> NegativeInfinity | Some x \<Rightarrow> Finite x),
      (case d of None \<Rightarrow> Infinity | Some x \<Rightarrow> Finite x),
      (case l of
         None \<Rightarrow> NegativeInfinity
       | Some parts \<Rightarrow>
           Finite (map (\<lambda>i. case i of LocalInt n \<Rightarrow> (Finite n, []) | LocalStr s \<Rightarrow> (NegativeInfinity, s))
                     parts)))"

definition key :: "version \<Rightarrow> cmpkey" where
  "key v = cmpkey (epoch v) (release v) (pre v) (post v) (dev v) (local v)"

text \<open>Rich comparison of versions goes through the key.\<close>

definition Version_lt :: "version \<Rightarrow> version \<Rightarrow> bool" where
  "Version_lt a b \<longleftrightarrow> key a < key b"

definition Version_le :: "version \<Rightarrow> version \<Rightarrow> bool" where
  "Version_le a b \<longleftrightarrow> key a \<le> key b"

definition Version_gt :: "version \<Rightarrow> version \<Rightarrow> bool" where
  "Version_gt a b \<longleftrightarrow> key a > key b"

definition Version_eq :: "version \<Rightarrow> version \<Rightarrow> bool" where
  "Version_eq a b \<longleftrightarrow> key a = key b"

definition is_prerelease :: "version \<Rightarrow> bool" where
  "is_prerelease v \<longleftrightarrow> dev v \<noteq> None \<or> pre v \<noteq> None"

subsection \<open>The pattern of a version\<close>

text \<open>
  A version string is searched with the pattern, compiled with \<^verbatim>\<open>re.VERBOSE\<close> and
  \<^verbatim>\<open>re.IGNORECASE\<close>,

  \<^verbatim>\<open>^\s* v? (?:(?P<epoch>[0-9]+)!)? (?P<release>[0-9]+(?:\.[0-9]+)*)\<close>
  \<^verbatim>\<open>(?P<pre>[-_\.]?(?P<pre_l>alpha|a|beta|b|preview|pre|c|rc)[-_\.]?(?P<pre_n>[0-9]+)?)?\<close>
  \<^verbatim>\<open>(?P<post>(?:-(?P<post_n1>[0-9]+))|(?:[-_\.]?(?P<post_l>post|rev|r)[-_\.]?(?P<post_n2>[0-9]+)?))?\<close>
  \<^verbatim>\<open>(?P<dev>[-_\.]?(?P<dev_l>dev)[-_\.]?(?P<dev_n>[0-9]+)?)?\<close>
  \<^verbatim>\<open>(?:\+(?P<local>[a-z0-9]+(?:[-_\.][a-z0-9]+)*))? \s*$\<close>

  Each piece below lists the ways it can match, the greedy choice first. The classes are
  \<^verbatim>\<open>[-_\.]\<close> and \<^verbatim>\<open>[a-z0-9]\<close> (with the upper case letters, since case is ignored).
\<close>

definition is_sep :: "char \<Rightarrow> bool" where
  "is_sep c \<longleftrightarrow> c \<in> set ''-_.''"

definition is_alnum :: "char \<Rightarrow> bool" where
  "is_alnum c \<longleftrightarrow>
     c \<in> set ''0123456789abcdefghijklmnopqrstuvwxyzABCDEFGHIJKLMNOPQRSTUVWXYZ''"

text \<open>A class repeated, \<^verbatim>\<open>[...]*\<close> and \<^verbatim>\<open>[...]+\<close>: what was matched and the text left.\<close>

fun chars_star :: "(char \<Rightarrow> bool) \<Rightarrow> string \<Rightarrow> (string \<times> string) list" where
  "chars_star p [] = [([], [])]"
| "chars_star p (c # cs) =
     (if p c then map (apfst ((#) c)) (chars_star p cs) else []) @ [([], c # cs)]"

definition chars_plus :: "(char \<Rightarrow> bool) \<Rightarrow> string \<Rightarrow> (string \<times> string) list" where
  "chars_plus p s =
     (case s of [] \<Rightarrow> [] | c # cs \<Rightarrow> if p c then map (apfst ((#) c)) (chars_star p cs) else [])"

text \<open>
  Runs of a class \<open>p\<close> separated by single characters of a class \<open>q\<close>, the shape
  \<^verbatim>\<open>p+(?:qp+)*\<close> of the release and of the local segment. The flag tells whether the
  current run has a character already, so that the match may stop here. The engine first
  tries to lengthen the run, then to start another run after a separator, then to stop.
\<close>

fun segments ::
  "(char \<Rightarrow> bool) \<Rightarrow> (char \<Rightarrow> bool) \<Rightarrow> bool \<Rightarrow> string \<Rightarrow> (string \<times> string) list" where
  "segments p q False [] = []"
| "segments p q False (c # cs) =
     (if p c then map (apfst ((#) c)) (segments p q True cs) else [])"
| "segments p q True [] = [([], [])]"
| "segments p q True (c # cs) =
     (if p c then map (apfst ((#) c)) (segments p q True cs) else [])
     @ (if q c then map (apfst ((#) c)) (segments p q False cs) else [])
     @ [([], c # cs)]"

text \<open>
  A literal in lower case matched without regard to case, and the first of several such
  literals that matches; an optional separator; an optional number; and the common shape
  of the three letter groups, \<^verbatim>\<open>[-_\.]?(letters)[-_\.]?([0-9]+)?\<close>.
\<close>

definition lit_ci :: "string \<Rightarrow> string \<Rightarrow> (string \<times> string) list" where
  "lit_ci w s =
     (if lower (take (length w) s) = w then [(take (length w) s, drop (length w) s)] else [])"

definition one_of_ci :: "string list \<Rightarrow> string \<Rightarrow> (string \<times> string) list" where
  "one_of_ci ws s = concat (map (\<lambda>w. lit_ci w s) ws)"

definition sep_opt :: "string \<Rightarrow> string list" where
  "sep_opt s = (case s of [] \<Rightarrow> [] | c # cs \<Rightarrow> if is_sep c then [cs] else []) @ [s]"

definition digits_opt :: "string \<Rightarrow> (string option \<times> string) list" where
  "digits_opt s = map (apfst Some) (chars_plus is_digit s) @ [(None, s)]"

definition letter_group :: "string list \<Rightarrow> string \<Rightarrow> ((string \<times> string option) \<times> string) list" where
  "letter_group letters s =
     [((l, n), s4).
        s1 \<leftarrow> sep_opt s,
        (l, s2) \<leftarrow> one_of_ci letters s1,
        s3 \<leftarrow> sep_opt s2,
        (n, s4) \<leftarrow> digits_opt s3]"

text \<open>The optional pieces of the pattern: taken if possible, left out otherwise.\<close>

definition v_opt :: "string \<Rightarrow> string list" where
  "v_opt s = map snd (lit_ci ''v'' s) @ [s]"

definition epoch_group :: "string \<Rightarrow> (string option \<times> string) list" where
  "epoch_group s = [(Some e, r). (e, s1) \<leftarrow> chars_plus is_digit s, r \<leftarrow> lit ''!'' s1] @ [(None, s)]"

definition release_group :: "string \<Rightarrow> (string \<times> string) list" where
  "release_group s = segments is_digit (\<lambda>c. c = CHR ''.'') False s"

definition pre_group :: "string \<Rightarrow> ((string option \<times> string option) \<times> string) list" where
  "pre_group s =
     [((Some l, n), r).
        ((l, n), r) \<leftarrow> letter_group [''alpha'', ''a'', ''beta'', ''b'', ''preview'', ''pre'', ''c'', ''rc''] s]
     @ [((None, None), s)]"

definition post_group ::
  "string \<Rightarrow> ((string option \<times> string option \<times> string option) \<times> string) list" where
  "post_group s =
     [((None, Some n1, None), r). s1 \<leftarrow> lit ''-'' s, (n1, r) \<leftarrow> chars_plus is_digit s1]
     @ [((Some l, None, n2), r). ((l, n2), r) \<leftarrow> letter_group [''post'', ''rev'', ''r''] s]
     @ [((None, None, None), s)]"

definition dev_group :: "string \<Rightarrow> ((string option \<times> string option) \<times> string) list" where
  "dev_group s =
     [((Some l, n), r). ((l, n), r) \<leftarrow> letter_group [''dev''] s] @ [((None, None), s)]"

definition local_group :: "string \<Rightarrow> (string option \<times> string) list" where
  "local_group s =
     [(Some l, r). s1 \<leftarrow> lit ''+'' s, (l, r) \<leftarrow> segments is_alnum is_sep False s1] @ [(None, s)]"

text \<open>
  The groups of a match, and the matches of the whole pattern; \<^verbatim>\<open>search\<close> returns the
  first one, or nothing when the string does not match from its start to its end.
\<close>

record version_groups =
  epoch_g :: "string option"
  release_g :: string
  pre_l :: "string option"
  pre_n :: "string option"
  post_n1 :: "string option"
  post_l :: "string option"
  post_n2 :: "string option"
  dev_l :: "string option"
  dev_n :: "string option"
  local_g :: "string option"

definition version_matches :: "string \<Rightarrow> version_groups list" where
  "version_matches s =
     [\<lparr>epoch_g = e, release_g = rel, pre_l = pl, pre_n = pn, post_n1 = qn1, post_l = ql,
        post_n2 = qn2, dev_l = dl, dev_n = dn, local_g = loc\<rparr>.
        s0 \<leftarrow> ws_star s,
        s1 \<leftarrow> v_opt s0,
        (e, s2) \<leftarrow> epoch_group s1,
        (rel, s3) \<leftarrow> release_group s2,
        ((pl, pn), s4) \<leftarrow> pre_group s3,
        ((ql, qn1, qn2), s5) \<leftarrow> post_group s4,
        ((dl, dn), s6) \<leftarrow> dev_group s5,
        (loc, s7) \<leftarrow> local_group s6,
        s8 \<leftarrow> ws_star s7,
        s8 = []]"

definition regex_search :: "string \<Rightarrow> version_groups option" where
  "regex_search s = (case version_matches s of [] \<Rightarrow> None | m # ms \<Rightarrow> Some m)"

subsection \<open>Construction\<close>

text \<open>
  \<^verbatim>\<open>_parse_letter_version\<close> spells the letter in its normal form and reads the number (0
  when there is none); a number without a letter is the implicit post-release \<^verbatim>\<open>1.0-1\<close>.
  \<^verbatim>\<open>_parse_local_version\<close> splits the local segment at its separators.
  \<^verbatim>\<open>Version(version)\<close> raises \<^verbatim>\<open>InvalidVersion\<close> when the pattern does not match, and keeps
  the string in \<^verbatim>\<open>raw_version\<close>.
\<close>

definition parse_letter_version :: "string option \<Rightarrow> string option \<Rightarrow> (string \<times> nat) option" where
  "parse_letter_version letter number =
     (case letter of
        Some (c # cs) \<Rightarrow>
          (let n = (case number of None \<Rightarrow> 0 | Some d \<Rightarrow> int_of_digits d);
               l = lower (c # cs);
               l' = (if l = ''alpha'' then ''a''
                     else if l = ''beta'' then ''b''
                     else if l \<in> set [''c'', ''pre'', ''preview''] then ''rc''
                     else if l \<in> set [''rev'', ''r''] then ''post''
                     else l)
           in Some (l', n))
      | _ \<Rightarrow>
          (case number of
             Some (d # ds) \<Rightarrow> Some (''post'', int_of_digits (d # ds))
           | _ \<Rightarrow> None))"

definition isdigit :: "string \<Rightarrow> bool" where
  "isdigit s \<longleftrightarrow> s \<noteq> [] \<and> list_all is_digit s"

definition parse_local_version :: "string option \<Rightarrow> local_part list option" where
  "parse_local_version loc =
     (case loc of
        None \<Rightarrow> None
      | Some l \<Rightarrow>
          Some (map (\<lambda>part. if \<not> isdigit part then LocalStr (lower part)
                            else LocalInt (int_of_digits part))
                  (split_on is_sep l)))"

definition truthy :: "string option \<Rightarrow> bool" where
  "truthy x \<longleftrightarrow> (case x of None \<Rightarrow> False | Some s \<Rightarrow> s \<noteq> [])"

definition Version :: "string \<Rightarrow> exn + version" where
  "Version version =
     (case regex_search version of
        None \<Rightarrow> Inl (InvalidVersion (''Invalid version: '' @ version))
      | Some m \<Rightarrow>
          Inr \<lparr>epoch = (if truthy (epoch_g m) then int_of_digits (the (epoch_g m)) else 0),
               release = map int_of_digits (split_on (\<lambda>c. c = CHR ''.'') (release_g m)),
               dev = parse_letter_version (dev_l m) (dev_n m),
               pre = parse_letter_version (pre_l m) (pre_n m),
               post = parse_letter_version (post_l m)
                        (if truthy (post_n1 m) then post_n1 m else post_n2 m),
               local = parse_local_version (local_g m),
               raw_version = version\<rparr>)"

subsection \<open>Printing a version\<close>

text \<open>\<^verbatim>\<open>base_version\<close> and \<^verbatim>\<open>__str__\<close>: the normal spelling of a version.\<close>

definition base_version :: "version \<Rightarrow> string" where
  "base_version v =
     (if epoch v \<noteq> 0 then str_nat (epoch v) @ ''!'' else [])
     @ join ''.'' (map str_nat (release v))"

definition str_local_part :: "local_part \<Rightarrow> string" where
  "str_local_part p = (case p of LocalInt n \<Rightarrow> str_nat n | LocalStr s \<Rightarrow> s)"

definition str_Version :: "version \<Rightarrow> string" where
  "str_Version v =
     (if epoch v \<noteq> 0 then str_nat (epoch v) @ ''!'' else [])
     @ join ''.'' (map str_nat (release v))
     @ (case pre v of None \<Rightarrow> [] | Some (l, n) \<Rightarrow> l @ str_nat n)
     @ (case post v of None \<Rightarrow> [] | Some (l, n) \<Rightarrow> ''.post'' @ str_nat n)
     @ (case dev v of None \<Rightarrow> [] | Some (l, n) \<Rightarrow> ''.dev'' @ str_nat n)
     @ (case local v of
          None \<Rightarrow> []
        | Some parts \<Rightarrow> if parts = [] then [] else ''+'' @ join ''.'' (map str_local_part parts))"

subsection \<open>Specifier sets\<close>

text \<open>
  \<^verbatim>\<open>SpecifierSet(prereleases=p).filter(items)\<close>, a set without specifiers: the loop keeps
  the items that are no pre-release (all items when \<open>p\<close> is true), and remembers the
  pre-releases seen before the first kept item; those are returned instead only when
  nothing was kept and \<open>p\<close> was left at \<^verbatim>\<open>None\<close>.
\<close>

fun SpecifierSet_loop ::
  "bool option \<Rightarrow> version list \<Rightarrow> version list \<Rightarrow> version list \<Rightarrow> version list \<times> version list" where
  "SpecifierSet_loop prereleases filtered found_prereleases [] = (filtered, found_prereleases)"
| "SpecifierSet_loop prereleases filtered found_prereleases (item # items) =
     (if is_prerelease item \<and> prereleases \<noteq> Some True then
        (if filtered = [] then
           SpecifierSet_loop prereleases filtered (found_prereleases @ [item]) items
         else SpecifierSet_loop prereleases filtered found_prereleases items)
      else SpecifierSet_loop prereleases (filtered @ [item]) found_prereleases items)"

definition SpecifierSet_filter :: "bool option \<Rightarrow> version list \<Rightarrow> version list" where
  "SpecifierSet_filter prereleases items =
     (case SpecifierSet_loop prereleases [] [] items of
        (filtered, found_prereleases) \<Rightarrow>
          if filtered = [] \<and> found_prereleases \<noteq> [] \<and> prereleases = None
          then found_prereleases else filtered)"

text \<open>
  \<^verbatim>\<open>SpecifierSet("<" + spec).filter(items)\<close>: one specifier, with the operator \<^verbatim>\<open><\<close>.
  The set leaves the pre-release flag at \<^verbatim>\<open>None\<close>, the specifier's own flag is false for
  \<^verbatim>\<open><\<close>, so the specifier filters with \<^verbatim>\<open>prereleases=False\<close>. \<^verbatim>\<open>contains\<close> rejects a
  pre-release first and asks the operator otherwise; the operator parses the specifier's
  version again.
\<close>

definition compare_less_than :: "version \<Rightarrow> string \<Rightarrow> exn + bool" where
  "compare_less_than prospective spec_str =
     (case Version spec_str of
        Inl e \<Rightarrow> Inl e
      | Inr spec \<Rightarrow>
          if \<not> Version_lt prospective spec then Inr False
          else if \<not> is_prerelease spec \<and> is_prerelease prospective then
            (case Version (base_version prospective) of
               Inl e \<Rightarrow> Inl e
             | Inr pb \<Rightarrow>
                 (case Version (base_version spec) of
                    Inl e \<Rightarrow> Inl e
                  | Inr sb \<Rightarrow> if Version_eq pb sb then Inr False else Inr True))
          else Inr True)"

definition Specifier_contains :: "string \<Rightarrow> version \<Rightarrow> bool \<Rightarrow> exn + bool" where
  "Specifier_contains spec_str item prereleases =
     (if is_prerelease item \<and> \<not> prereleases then Inr False
      else compare_less_than item spec_str)"

fun Specifier_loop :: "string \<Rightarrow> bool \<Rightarrow> version list \<Rightarrow> exn + (version list \<times> version list)" where
  "Specifier_loop spec_str prereleases [] = Inr ([], [])"
| "Specifier_loop spec_str prereleases (v # vs) =
     (case Specifier_contains spec_str v prereleases of
        Inl e \<Rightarrow> Inl e
      | Inr c \<Rightarrow>
          (case Specifier_loop spec_str prereleases vs of
             Inl e \<Rightarrow> Inl e
           | Inr (yielded, found_prereleases) \<Rightarrow>
               if c then
                 (if is_prerelease v \<and> \<not> prereleases then Inr (yielded, v # found_prereleases)
                  else Inr (v # yielded, found_prereleases))
               else Inr (yielded, found_prereleases)))"

definition Specifier_filter :: "string \<Rightarrow> bool \<Rightarrow> version list \<Rightarrow> exn + version list" where
  "Specifier_filter spec_str prereleases items =
     (case Specifier_loop spec_str prereleases items of
        Inl e \<Rightarrow> Inl e
      | Inr (yielded, found_prereleases) \<Rightarrow>
          if yielded = [] \<and> found_prereleases \<noteq> [] then Inr found_prereleases else Inr yielded)"

definition SpecifierSet_lt_filter :: "string \<Rightarrow> version list \<Rightarrow> exn + version list" where
  "SpecifierSet_lt_filter spec_str items = Specifier_filter spec_str False items"

subsection \<open>Sorting and the maximum\<close>

text \<open>
  \<^verbatim>\<open>sorted\<close> is stable and compares with \<^verbatim>\<open><\<close>, that is, by the key. \<^verbatim>\<open>max\<close> raises
  \<^verbatim>\<open>ValueError\<close> on an empty sequence and otherwise returns the first item that no later
  item exceeds.
\<close>

definition sorted_versions :: "version list \<Rightarrow> version list" where
  "sorted_versions vs = sort_key key vs"

fun max_loop :: "version \<Rightarrow> version list \<Rightarrow> version" where
  "max_loop best [] = best"
| "max_loop best (v # vs) = max_loop (if Version_gt v best then v else best) vs"

definition py_max :: "version list \<Rightarrow> exn + version" where
  "py_max vs =
     (case vs of
        [] \<Rightarrow> Inl (ValueError ''max() arg is an empty sequence'')
      | v # vs' \<Rightarrow> Inr (max_loop v vs'))"

section \<open>The version resolver\<close>

text \<open>
  The target is one of the keys of the table \<^verbatim>\<open>SEMVER\<close>: the command line accepts no other
  value.
\<close>

datatype target = Major | Minor | Patch

fun SEMVER :: "target \<Rightarrow> nat" where
  "SEMVER Major = 0"
| "SEMVER Minor = 1"
| "SEMVER Patch = 2"

definition PRERELEASES :: bool where
  "PRERELEASES = False"

text \<open>The generator \<^verbatim>\<open>_parse_versions\<close>: the strings that do not parse are passed over.\<close>

fun parse_versions :: "string list \<Rightarrow> version list" where
  "parse_versions [] = []"
| "parse_versions (v # vs) =
     (case Version v of
        Inr x \<Rightarrow> x # parse_versions vs
      | Inl e \<Rightarrow> parse_versions vs)"

text \<open>
  \<^verbatim>\<open>_determine_latest_version\<close>. The slice \<^verbatim>\<open>current_version[0:index]\<close> is the prefix of
  the release of at most \<open>index\<close> components; \<^verbatim>\<open>ceiling[-1] += 1\<close> adds one to its last
  component.
\<close>

definition determine_latest_version :: "string \<Rightarrow> target \<Rightarrow> string list \<Rightarrow> exn + string" where
  "determine_latest_version current_version target versions =
     (case Version current_version of
        Inl e \<Rightarrow> Inl e
      | Inr cv \<Rightarrow>
          (let parsed = parse_versions versions;
               index = SEMVER target;
               ceiling = take index (release cv)
           in case (if length ceiling = 0 then Inr None
                    else map_sum id Some
                      (Version (join ''.''
                         (map str_nat (ceiling [length ceiling - 1 := last ceiling + 1]))))) of
                Inl e \<Rightarrow> Inl e
              | Inr ceiling_version \<Rightarrow>
                  (let no_pre = SpecifierSet_filter (Some PRERELEASES) parsed
                   in case (case ceiling_version of
                              None \<Rightarrow> Inr no_pre
                            | Some c \<Rightarrow> SpecifierSet_lt_filter (str_Version c) no_pre) of
                        Inl e \<Rightarrow> Inl e
                      | Inr below \<Rightarrow>
                          (case py_max (sorted_versions below) of
                             Inl e \<Rightarrow> Inl e
                           | Inr v \<Rightarrow> Inr (raw_version v)))))"

section \<open>The update pipeline\<close>

text \<open>
  What the program reads from outside is a parameter of the model: which paths are
  directories, the files and their text (\<^verbatim>\<open>os.path.isfile\<close>, \<^verbatim>\<open>open(path).read()\<close>), the
  answer of \<^verbatim>\<open>requests.get\<close> to a URL, and the output of a shell command run by
  \<^verbatim>\<open>subprocess.check_output\<close>. \<^verbatim>\<open>requests.get\<close> raises when no answer arrives (a
  \<^verbatim>\<open>ConnectionError\<close>, which is no \<^verbatim>\<open>ValueError\<close>); of an answer the program reads the status
  code and the keys of the \<^verbatim>\<open>releases\<close> member of its JSON body (\<open>None\<close> when the body has
  no such member). Logging is left out.
\<close>

record response =
  status_code :: nat
  json_releases :: "string list option"

record world =
  isdir :: "string \<Rightarrow> bool"
  files :: "string \<Rightarrow> string option"
  requests_get :: "string \<Rightarrow> exn + response"
  check_output :: "string \<Rightarrow> string"

definition INDEX :: string where
  "INDEX = ''https://pypi.io/pypi''"

definition PYPI_PACKAGE_URL :: string where
  "PYPI_PACKAGE_URL = ''https://pypi.org/project''"

definition isfile :: "world \<Rightarrow> string \<Rightarrow> bool" where
  "isfile w path \<longleftrightarrow> files w path \<noteq> None"

definition endswith :: "string \<Rightarrow> string \<Rightarrow> bool" where
  "endswith s suffix \<longleftrightarrow>
     length suffix \<le> length s \<and> drop (length s - length suffix) s = suffix"

definition os_path_join :: "string \<Rightarrow> string \<Rightarrow> string" where
  "os_path_join a b = (if a = [] \<or> last a = CHR ''/'' then a @ b else a @ ''/'' @ b)"

definition fetch_page :: "world \<Rightarrow> string \<Rightarrow> exn + string list option" where
  "fetch_page w url =
     (case requests_get w url of
        Inl e \<Rightarrow> Inl e
      | Inr r \<Rightarrow>
          if status_code r = 200 then Inr (json_releases r)
          else Inl (ValueError (''request for '' @ url @ '' failed'')))"

definition check_pypi :: "world \<Rightarrow> string \<Rightarrow> string \<Rightarrow> target \<Rightarrow> exn + string" where
  "check_pypi w package current_version target =
     (let json_url = INDEX @ ''/'' @ package @ ''/json''
      in case fetch_page w json_url of
           Inl e \<Rightarrow> Inl e
         | Inr json \<Rightarrow>
             (case json of
                None \<Rightarrow> Inl (KeyError ''releases'')
              | Some versions \<Rightarrow>
                  (case determine_latest_version current_version target versions of
                     Inl e \<Rightarrow> Inl e
                   | Inr version \<Rightarrow>
                       if version \<in> set versions then Inr version
                       else Inl (KeyError (''Could not find version '' @ version @ '' for ''
                                   @ package)))))"

text \<open>
  \<^verbatim>\<open>_print_new_version\<close> returns \<^verbatim>\<open>False\<close> (\<open>Some False\<close>) or, after printing the report
  line, nothing (\<open>None\<close>); the second component is what it printed. Its last part, from
  the shell command to the \<^verbatim>\<open>print\<close>, is \<open>lookup_and_report\<close>.
\<close>

definition Downgrade :: "string \<Rightarrow> exn" where
  "Downgrade pname = ValueError (''downgrade for '' @ pname @ ''.'')"

definition lookup_and_report ::
  "world \<Rightarrow> string \<Rightarrow> string \<Rightarrow> string \<Rightarrow> string \<Rightarrow> bool option \<times> string list" where
  "lookup_and_report w drv_name_path pname version new_version =
     (let package_url = PYPI_PACKAGE_URL @ ''/'' @ pname @ ''/'';
          cmd = ''cat -- '' @ drv_name_path @ '' | grep '' @ pname @ ''-'' @ version
                  @ '' | grep -v python2 | head -1'';
          drv_name_bytes = check_output w cmd;
          drv_name = rstrip drv_name_bytes;
          drv_name = join ''-'' (butlast (split_on (\<lambda>c. c = CHR ''-'') drv_name))
      in if length drv_name = 0 then (Some False, [])
         else (None, [drv_name @ '' '' @ version @ '' '' @ new_version @ '' '' @ package_url]))"

definition print_new_version ::
  "world \<Rightarrow> string \<Rightarrow> target \<Rightarrow> string \<Rightarrow> exn + (bool option \<times> string list)" where
  "print_new_version w path target drv_name_path =
     (case files w path of
        None \<Rightarrow> Inl (FileNotFoundError path)
      | Some text \<Rightarrow>
          (case get_unique_value ''pname'' text of
             Inl e \<Rightarrow> Inl e
           | Inr pname \<Rightarrow>
               (case get_unique_value ''version'' text of
                  Inl e \<Rightarrow> Inl e
                | Inr version \<Rightarrow>
                    (case check_pypi w pname version target of
                       Inl e \<Rightarrow> Inl e
                     | Inr new_version \<Rightarrow>
                         if new_version = version then Inr (Some False, [])
                         else
                           (case Version new_version of
                              Inl e \<Rightarrow> Inl e
                            | Inr nv \<Rightarrow>
                                (case Version version of
                                   Inl e \<Rightarrow> Inl e
                                 | Inr ov \<Rightarrow>
                                     if Version_le nv ov then Inl (Downgrade pname)
                                     else Inr (lookup_and_report w drv_name_path pname version
                                                 new_version)))))))"

text \<open>
  \<^verbatim>\<open>_update\<close> returns a truth value and passes on what was printed. Only a \<^verbatim>\<open>ValueError\<close>
  is caught; any other exception leaves the function.
\<close>

definition update :: "world \<Rightarrow> string \<Rightarrow> target \<Rightarrow> string \<Rightarrow> exn + (bool \<times> string list)" where
  "update w path target drv_name_path =
     (let path = (if isdir w path then os_path_join path ''default.nix'' else path)
      in if \<not> isfile w path then Inr (False, [])
         else if \<not> endswith path ''.nix'' then Inr (False, [])
         else
           (case print_new_version w path target drv_name_path of
              Inr (r, out) \<Rightarrow> Inr (True, out)
            | Inl e \<Rightarrow> if is_ValueError e then Inr (False, []) else Inl e))"

text \<open>
  \<^verbatim>\<open>main\<close>, from \<^verbatim>\<open>Updating packages...\<close> on: the arguments are parsed and the package list
  is made. \<^verbatim>\<open>list(p.map(update_func, packages))\<close> gives the results in the order of the
  packages, or raises the exception of the first package (in that order) whose task
  raised one; then \<^verbatim>\<open>main\<close> does not reach its summary and the process ends with a
  traceback and a non-zero status.
\<close>

fun pool_map ::
  "(string \<Rightarrow> exn + (bool \<times> string list)) \<Rightarrow> string list \<Rightarrow> exn + (bool list \<times> string list)" where
  "pool_map f [] = Inr ([], [])"
| "pool_map f (p # ps) =
     (case f p of
        Inl e \<Rightarrow> Inl e
      | Inr (r, out) \<Rightarrow>
          (case pool_map f ps of
             Inl e \<Rightarrow> Inl e
           | Inr (rs, outs) \<Rightarrow> Inr (r # rs, out @ outs)))"

record summary =
  checked :: nat
  updated :: nat
  report :: "string list"

definition main :: "world \<Rightarrow> target \<Rightarrow> string \<Rightarrow> string list \<Rightarrow> exn + summary" where
  "main w target drv_name_path packages =
     (case pool_map (\<lambda>pkg. update w pkg target drv_name_path) packages of
        Inl e \<Rightarrow> Inl e
      | Inr (results, out) \<Rightarrow>
          Inr \<lparr>checked = length results,
               updated = sum_list (map (\<lambda>b. if b then 1 else 0) (filter (\<lambda>b. b) results)),
               report = out\<rparr>)"

definition exit_status :: "exn + summary \<Rightarrow> nat" where
  "exit_status r = (case r of Inl e \<Rightarrow> 1 | Inr s \<Rightarrow> 0)"

section \<open>Properties of attribute extraction\<close>

lemma lit_decompose: "r \<in> set (lit w s) \<Longrightarrow> s = w @ r"
  by (auto simp: lit_def split: if_splits) (metis append_take_drop_id)

lemma ws_star_decompose:
  "r \<in> set (ws_star s) \<Longrightarrow> \<exists>w. s = w @ r \<and> (\<forall>c \<in> set w. is_space c)"
proof (induction s)
  case Nil
  then show ?case by simp
next
  case (Cons c cs)
  show ?case
  proof (cases "r = c # cs")
    case True
    then show ?thesis by simp
  next
    case False
    with Cons.prems have c: "is_space c" and r: "r \<in> set (ws_star cs)"
      by (auto split: if_splits)
    from Cons.IH [OF r] obtain w where "cs = w @ r" "\<forall>c \<in> set w. is_space c"
      by blast
    with c have "c # cs = (c # w) @ r \<and> (\<forall>c \<in> set (c # w). is_space c)"
      by simp
    then show ?thesis by blast
  qed
qed

lemma ws_plus_decompose:
  assumes "r \<in> set (ws_plus s)"
  shows "\<exists>w. s = w @ r \<and> w \<noteq> [] \<and> (\<forall>c \<in> set w. is_space c)"
proof (cases s)
  case Nil
  with assms show ?thesis by (simp add: ws_plus_def)
next
  case (Cons c cs)
  with assms have c: "is_space c" and r: "r \<in> set (ws_star cs)"
    by (auto simp: ws_plus_def split: if_splits)
  from ws_star_decompose [OF r] obtain w where "cs = w @ r" "\<forall>c \<in> set w. is_space c"
    by blast
  with c Cons have "s = (c # w) @ r \<and> c # w \<noteq> [] \<and> (\<forall>c \<in> set (c # w). is_space c)"
    by simp
  then show ?thesis by blast
qed

lemma dot_star_decompose: "(g, r) \<in> set (dot_star s) \<Longrightarrow> s = g @ r"
proof (induction s arbitrary: g)
  case Nil
  then show ?case by simp
next
  case (Cons c cs)
  then show ?case by (fastforce split: if_splits)
qed

lemma attribute_matches_decompose:
  assumes "(g, r) \<in> set (attribute_matches attribute s)"
  shows "\<exists>w1 w2. w1 \<noteq> [] \<and> w2 \<noteq> [] \<and> (\<forall>c \<in> set (w1 @ w2). is_space c) \<and>
           s = attribute @ w1 @ ''='' @ w2 @ quoted g @ '';'' @ r"
proof -
  from assms obtain s1 s2 s3 s4 s5 s6 where m:
    "s1 \<in> set (lit attribute s)" "s2 \<in> set (ws_plus s1)" "s3 \<in> set (lit ''='' s2)"
    "s4 \<in> set (ws_plus s3)" "s5 \<in> set (lit [dq] s4)" "(g, s6) \<in> set (dot_star s5)"
    "r \<in> set (lit (dq # '';'') s6)"
    by (auto simp: attribute_matches_def)
  from ws_plus_decompose [OF m(2)] obtain w1 where
    w1: "s1 = w1 @ s2" "w1 \<noteq> []" "\<forall>c \<in> set w1. is_space c" by blast
  from ws_plus_decompose [OF m(4)] obtain w2 where
    w2: "s3 = w2 @ s4" "w2 \<noteq> []" "\<forall>c \<in> set w2. is_space c" by blast
  have "s = attribute @ s1" "s2 = ''='' @ s3" "s4 = [dq] @ s5" "s5 = g @ s6"
    "s6 = (dq # '';'') @ r"
    using m by (auto dest: lit_decompose dot_star_decompose)
  with w1 w2 have "s = attribute @ w1 @ ''='' @ w2 @ quoted g @ '';'' @ r"
    by (simp add: quoted_def)
  with w1 w2 show ?thesis by auto
qed

lemma match_at_decompose:
  assumes "match_at attribute s = Some (g, r)"
  shows "\<exists>w1 w2. w1 \<noteq> [] \<and> w2 \<noteq> [] \<and> (\<forall>c \<in> set (w1 @ w2). is_space c) \<and>
           s = attribute @ w1 @ ''='' @ w2 @ quoted g @ '';'' @ r"
proof -
  from assms have "(g, r) \<in> set (attribute_matches attribute s)"
    by (auto simp: match_at_def split: list.splits)
  then show ?thesis by (rule attribute_matches_decompose)
qed

lemma match_at_needs_space:
  assumes "\<forall>c \<in> set s. \<not> is_space c"
  shows "match_at attribute s = None"
proof (cases "match_at attribute s")
  case None
  then show ?thesis .
next
  case (Some m)
  obtain g r where "m = (g, r)" by (cases m)
  with Some match_at_decompose [of attribute s g r] obtain w1 w2 where
    "w1 \<noteq> []" "\<forall>c \<in> set (w1 @ w2). is_space c"
    "s = attribute @ w1 @ ''='' @ w2 @ quoted g @ '';'' @ r"
    by blast
  then have "hd w1 \<in> set s" "is_space (hd w1)"
    by (cases w1; simp)+
  with assms show ?thesis by blast
qed

lemma findall_needs_space: "\<forall>c \<in> set s. \<not> is_space c \<Longrightarrow> findall attribute s = []"
proof (induction s)
  case Nil
  then show ?case by (simp add: findall.simps [of attribute "[]"] match_at_needs_space)
next
  case (Cons c cs)
  then have "match_at attribute (c # cs) = None" "findall attribute cs = []"
    by (simp_all add: match_at_needs_space)
  then show ?case by (simp add: findall.simps [of attribute "c # cs"])
qed

text \<open>
  C4 (counterexample). The claim's first example does not raise: the two declarations
  stand on one line, the greedy group \<^verbatim>\<open>(.*)\<close> runs to the last \<^verbatim>\<open>";\<close> of the line, so
  \<^verbatim>\<open>findall\<close> finds one match and \<^verbatim>\<open>_get_unique_value\<close> returns its group,
  \<^verbatim>\<open>foo"; pname = "bar\<close>.
\<close>

theorem get_unique_value_one_line_counterexample:
  "get_unique_value ''pname'' (''pname = '' @ quoted ''foo'' @ ''; pname = '' @ quoted ''bar'' @ '';'')
     = Inr (''foo'' @ [dq] @ ''; pname = '' @ [dq] @ ''bar'')"
  by code_simp

text \<open>
  C4 (as amended). For every attribute name that is a literal of the pattern and every
  text, \<^verbatim>\<open>_get_unique_value\<close> raises \<open>AmbiguousAttribute\<close> when \<^verbatim>\<open>findall\<close> finds more
  than one match of the pattern and \<open>MissingAttribute\<close> when it finds none, and returns
  the group of the match when there is exactly one. With the two declarations of \<open>pname\<close>
  on two lines it raises \<open>AmbiguousAttribute\<close>, and on \<^verbatim>\<open>other = "x";\<close> it raises
  \<open>MissingAttribute\<close>.
\<close>

theorem get_unique_value_errors:
  assumes "regex_literal attribute"
  shows "(length (get_values attribute text) > 1 \<longrightarrow>
            get_unique_value attribute text = Inl (AmbiguousAttribute attribute))
       \<and> (length (get_values attribute text) = 0 \<longrightarrow>
            get_unique_value attribute text = Inl (MissingAttribute attribute))
       \<and> (\<forall>v. get_values attribute text = [v] \<longrightarrow> get_unique_value attribute text = Inr v)
       \<and> get_unique_value ''pname''
            (''pname = '' @ quoted ''foo'' @ '';'' @ [CHR 0x0A] @ ''pname = '' @ quoted ''bar'' @ '';'')
           = Inl (AmbiguousAttribute ''pname'')
       \<and> get_unique_value ''pname'' (''other = '' @ quoted ''x'' @ '';'')
           = Inl (MissingAttribute ''pname'')"
proof -
  have "get_unique_value ''pname''
            (''pname = '' @ quoted ''foo'' @ '';'' @ [CHR 0x0A] @ ''pname = '' @ quoted ''bar'' @ '';'')
           = Inl (AmbiguousAttribute ''pname'')"
    by code_simp
  moreover have "get_unique_value ''pname'' (''other = '' @ quoted ''x'' @ '';'')
           = Inl (MissingAttribute ''pname'')"
    by code_simp
  ultimately show ?thesis
    by (simp add: get_unique_value_def Let_def)
qed

theorem get_unique_value_errors_witness:
  "regex_literal ''version''
   \<and> length (get_values ''version'' (''version = '' @ quoted ''1.0'' @ '';'')) = 1
   \<and> get_unique_value ''version'' (''version = '' @ quoted ''1.0'' @ '';'') = Inr ''1.0''"
proof -
  have l: "regex_literal ''version''"
    by (simp add: regex_literal_def)
  have v: "get_values ''version'' (''version = '' @ quoted ''1.0'' @ '';'') = [''1.0'']"
    by code_simp
  from get_unique_value_errors [OF l, of "''version = '' @ quoted ''1.0'' @ '';''"] v l
  show ?thesis by simp
qed

text \<open>
  C10. A match of the pattern at the start of a text has at least one whitespace
  character between the attribute name and \<^verbatim>\<open>=\<close> and at least one between \<^verbatim>\<open>=\<close> and the
  opening quote. So a text without any whitespace character has no match and
  \<^verbatim>\<open>_get_unique_value\<close> raises \<open>MissingAttribute\<close> on it; \<^verbatim>\<open>pname="x";\<close> is such a text.
\<close>

theorem match_requires_whitespace:
  assumes "regex_literal attribute"
  shows "(\<forall>g r. match_at attribute s = Some (g, r) \<longrightarrow>
            (\<exists>w1 w2. w1 \<noteq> [] \<and> w2 \<noteq> [] \<and> (\<forall>c \<in> set (w1 @ w2). is_space c) \<and>
               s = attribute @ w1 @ ''='' @ w2 @ quoted g @ '';'' @ r))
       \<and> ((\<forall>c \<in> set text. \<not> is_space c) \<longrightarrow>
            get_values attribute text = [] \<and>
            get_unique_value attribute text = Inl (MissingAttribute attribute))
       \<and> get_values ''pname'' (''pname='' @ quoted ''x'' @ '';'') = []
       \<and> get_unique_value ''pname'' (''pname='' @ quoted ''x'' @ '';'')
           = Inl (MissingAttribute ''pname'')"
proof -
  have "get_values ''pname'' (''pname='' @ quoted ''x'' @ '';'') = []"
    by code_simp
  moreover have "get_unique_value ''pname'' (''pname='' @ quoted ''x'' @ '';'')
           = Inl (MissingAttribute ''pname'')"
    by code_simp
  moreover have "\<forall>g r. match_at attribute s = Some (g, r) \<longrightarrow>
            (\<exists>w1 w2. w1 \<noteq> [] \<and> w2 \<noteq> [] \<and> (\<forall>c \<in> set (w1 @ w2). is_space c) \<and>
               s = attribute @ w1 @ ''='' @ w2 @ quoted g @ '';'' @ r)"
    using match_at_decompose by blast
  moreover have "(\<forall>c \<in> set text. \<not> is_space c) \<longrightarrow>
            get_values attribute text = [] \<and>
            get_unique_value attribute text = Inl (MissingAttribute attribute)"
    by (simp add: get_unique_value_def get_values_def findall_needs_space)
  ultimately show ?thesis by blast
qed

theorem match_requires_whitespace_witness:
  "regex_literal ''version''
   \<and> match_at ''version'' (''version = '' @ quoted ''1.0'' @ '';'') = Some (''1.0'', [])
   \<and> (\<exists>w1 w2. w1 \<noteq> [] \<and> w2 \<noteq> [] \<and> (\<forall>c \<in> set (w1 @ w2). is_space c) \<and>
         ''version = '' @ quoted ''1.0'' @ '';'' = ''version'' @ w1 @ ''='' @ w2 @ quoted ''1.0'' @ '';'' @ [])
   \<and> \<not> (\<exists>c \<in> set (''version='' @ quoted ''1.0'' @ '';''). is_space c)
   \<and> get_values ''version'' (''version='' @ quoted ''1.0'' @ '';'') = []"
proof -
  have l: "regex_literal ''version''"
    by (simp add: regex_literal_def)
  have m: "match_at ''version'' (''version = '' @ quoted ''1.0'' @ '';'') = Some (''1.0'', [])"
    by code_simp
  have n: "\<forall>c \<in> set (''version='' @ quoted ''1.0'' @ '';''). \<not> is_space c"
    by (simp add: quoted_def dq_def is_space_def)
  from match_requires_whitespace
         [OF l, of "''version = '' @ quoted ''1.0'' @ '';''" "''version='' @ quoted ''1.0'' @ '';''"]
       l m n
  show ?thesis by blast
qed

section \<open>Decimal numbers: printing and reading back\<close>

lemma digit_cases:
  "d < (10::nat) \<Longrightarrow>
     d = 0 \<or> d = 1 \<or> d = 2 \<or> d = 3 \<or> d = 4 \<or> d = 5 \<or> d = 6 \<or> d = 7 \<or> d = 8 \<or> d = 9"
  by arith

lemma is_digit_digit_char: "d < 10 \<Longrightarrow> is_digit (digit_char d)"
  using digit_cases [of d] by (auto simp: is_digit_def digit_char_def)

lemma digit_val_digit_char: "d < 10 \<Longrightarrow> digit_val (digit_char d) = d"
  using digit_cases [of d] by (auto simp: digit_val_def digit_char_def)

lemma str_nat_digits: "c \<in> set (str_nat n) \<Longrightarrow> is_digit c"
proof (induction n arbitrary: c rule: str_nat.induct)
  case (1 n)
  show ?case
  proof (cases "n < 10")
    case True
    with "1.prems" show ?thesis
      by (simp add: str_nat.simps [of n] is_digit_digit_char)
  next
    case False
    with "1.prems" have "c \<in> set (str_nat (n div 10)) \<or> c = digit_char (n mod 10)"
      by (auto simp: str_nat.simps [of n])
    with False "1.IH" show ?thesis
      by (auto simp: is_digit_digit_char)
  qed
qed

lemma str_nat_nonempty: "str_nat n \<noteq> []"
  by (subst str_nat.simps) simp

lemma int_of_digits_snoc: "int_of_digits (s @ [c]) = 10 * int_of_digits s + digit_val c"
  by (simp add: int_of_digits_def)

lemma int_of_digits_str_nat: "int_of_digits (str_nat n) = n"
proof (induction n rule: str_nat.induct)
  case (1 n)
  show ?case
  proof (cases "n < 10")
    case True
    then show ?thesis
      by (simp add: str_nat.simps [of n] int_of_digits_def digit_val_digit_char)
  next
    case False
    with 1 have "int_of_digits (str_nat (n div 10)) = n div 10" by simp
    with False show ?thesis
      by (simp add: str_nat.simps [of n] int_of_digits_snoc digit_val_digit_char)
  qed
qed

lemma digit_not_dot: "is_digit c \<Longrightarrow> c \<noteq> CHR ''.''"
  by (auto simp: is_digit_def)

lemma digit_not_space: "is_digit c \<Longrightarrow> \<not> is_space c"
  by (auto simp: is_digit_def is_space_def)

lemma digit_lower:
  assumes "is_digit c"
  shows "lower_char c = c"
proof -
  from assms have "c = CHR ''0'' \<or> c = CHR ''1'' \<or> c = CHR ''2'' \<or> c = CHR ''3'' \<or> c = CHR ''4''
      \<or> c = CHR ''5'' \<or> c = CHR ''6'' \<or> c = CHR ''7'' \<or> c = CHR ''8'' \<or> c = CHR ''9''"
    by (simp add: is_digit_def)
  then show ?thesis
    by (elim disjE) (simp_all add: lower_char_def)
qed

section \<open>Splitting what was joined\<close>

lemma split_on_nonempty: "split_on q s \<noteq> []"
  by (induction s) (auto split: list.splits)

lemma split_on_none: "\<forall>c \<in> set x. \<not> q c \<Longrightarrow> split_on q x = [x]"
  by (induction x) auto

lemma split_on_append:
  "\<forall>c \<in> set x. \<not> q c \<Longrightarrow> q d \<Longrightarrow> split_on q (x @ d # t) = x # split_on q t"
  by (induction x) auto

lemma join_Cons: "xs \<noteq> [] \<Longrightarrow> join sep (x # xs) = x @ sep @ join sep xs"
  by (cases xs) simp_all

lemma split_on_join:
  assumes "xs \<noteq> []" and "\<forall>x \<in> set xs. \<forall>c \<in> set x. \<not> q c" and "q d"
  shows "split_on q (join [d] xs) = xs"
  using assms
proof (induction xs)
  case Nil
  then show ?case by simp
next
  case (Cons x xs)
  from Cons.prems have x: "\<forall>c \<in> set x. \<not> q c" by simp
  show ?case
  proof (cases "xs = []")
    case True
    with x show ?thesis by (simp add: split_on_none)
  next
    case False
    moreover from Cons.prems have "\<forall>x \<in> set xs. \<forall>c \<in> set x. \<not> q c" by simp
    ultimately have IH: "split_on q (join [d] xs) = xs"
      using Cons.IH \<open>q d\<close> by blast
    from False have "join [d] (x # xs) = x @ d # join [d] xs"
      by (simp add: join_Cons)
    with IH x \<open>q d\<close> show ?thesis
      by (simp add: split_on_append)
  qed
qed

lemma split_dots_release:
  assumes "ns \<noteq> []"
  shows "map int_of_digits (split_on (\<lambda>c. c = CHR ''.'') (join ''.'' (map str_nat ns))) = ns"
proof -
  have nodot: "\<forall>x \<in> set (map str_nat ns). \<forall>c \<in> set x. \<not> c = CHR ''.''"
  proof (intro ballI)
    fix x c
    assume "x \<in> set (map str_nat ns)" and c: "c \<in> set x"
    then obtain n where "x = str_nat n" by auto
    with c have "is_digit c" by (simp add: str_nat_digits)
    then show "\<not> c = CHR ''.''" by (rule digit_not_dot)
  qed
  from assms have "map str_nat ns \<noteq> []" by simp
  from split_on_join [OF this nodot, of "CHR ''.''"]
  have "split_on (\<lambda>c. c = CHR ''.'') (join ''.'' (map str_nat ns)) = map str_nat ns"
    by simp
  then have "map int_of_digits (split_on (\<lambda>c. c = CHR ''.'') (join ''.'' (map str_nat ns)))
      = map int_of_digits (map str_nat ns)"
    by (rule arg_cong)
  also have "\<dots> = ns"
    by (induction ns) (simp_all add: int_of_digits_str_nat)
  finally show ?thesis .
qed

section \<open>The pattern on a dotted number\<close>

lemma chars_star_decompose: "(e, r) \<in> set (chars_star p s) \<Longrightarrow> s = e @ r"
proof (induction s arbitrary: e)
  case Nil
  then show ?case by simp
next
  case (Cons c cs)
  then show ?case by (fastforce split: if_splits)
qed

lemma chars_plus_decompose: "(e, r) \<in> set (chars_plus p s) \<Longrightarrow> s = e @ r"
  by (cases s) (auto simp: chars_plus_def dest: chars_star_decompose split: if_splits)

lemma apfst_append_Nil: "map (apfst (\<lambda>a. a)) l = l"
  by (induction l) auto

lemma apfst_Cons_append_point: "apfst ((#) c) (apfst ((@) x) y) = apfst ((@) (c # x)) y"
  by (cases y) simp

lemma segments_True_prefix:
  assumes "\<forall>c \<in> set x. p c"
  shows "\<exists>alts. segments p q True (x @ t) = map (apfst ((@) x)) (segments p q True t) @ alts"
  using assms
proof (induction x)
  case Nil
  then show ?case by (simp add: apfst_append_Nil)
next
  case (Cons c x)
  then obtain alts where
    "segments p q True (x @ t) = map (apfst ((@) x)) (segments p q True t) @ alts"
    by auto
  with Cons.prems have "segments p q True ((c # x) @ t) =
      map (apfst ((@) (c # x))) (segments p q True t)
      @ (map (apfst ((#) c)) alts
         @ (if q c then map (apfst ((#) c)) (segments p q False (x @ t)) else [])
         @ [([], c # x @ t)])"
    by (simp add: apfst_Cons_append_point)
  then show ?case by blast
qed

lemma segments_False_prefix:
  assumes "x \<noteq> []" and "\<forall>c \<in> set x. p c"
  shows "\<exists>alts. segments p q False (x @ t) = map (apfst ((@) x)) (segments p q True t) @ alts"
proof -
  from assms obtain c x' where x: "x = c # x'" and c: "p c" and x': "\<forall>c \<in> set x'. p c"
    by (cases x) auto
  from segments_True_prefix [OF x', of q t] obtain alts where
    "segments p q True (x' @ t) = map (apfst ((@) x')) (segments p q True t) @ alts"
    by blast
  with x c have "segments p q False (x @ t) =
      map (apfst ((@) x)) (segments p q True t) @ map (apfst ((#) c)) alts"
    by (simp add: apfst_Cons_append_point)
  then show ?thesis by blast
qed

lemma segments_join:
  assumes "xs \<noteq> []" and "\<forall>x \<in> set xs. x \<noteq> [] \<and> (\<forall>c \<in> set x. p c)" and "q d" and "\<not> p d"
  shows "\<exists>alts. segments p q False (join [d] xs) = (join [d] xs, []) # alts"
  using assms
proof (induction xs)
  case Nil
  then show ?case by simp
next
  case (Cons x xs)
  from Cons.prems have x: "x \<noteq> []" "\<forall>c \<in> set x. p c" by simp_all
  show ?case
  proof (cases "xs = []")
    case True
    from segments_False_prefix [OF x, of q "[]"] obtain alts where
      "segments p q False (x @ []) = map (apfst ((@) x)) (segments p q True []) @ alts"
      by blast
    with True have "segments p q False (join [d] (x # xs)) = (join [d] (x # xs), []) # alts"
      by simp
    then show ?thesis by blast
  next
    case False
    moreover from Cons.prems have "\<forall>x \<in> set xs. x \<noteq> [] \<and> (\<forall>c \<in> set x. p c)" by simp
    ultimately obtain a1 where IH: "segments p q False (join [d] xs) = (join [d] xs, []) # a1"
      using Cons.IH \<open>q d\<close> \<open>\<not> p d\<close> by blast
    from segments_False_prefix [OF x, of q "d # join [d] xs"] obtain a2 where
      "segments p q False (x @ d # join [d] xs)
         = map (apfst ((@) x)) (segments p q True (d # join [d] xs)) @ a2"
      by blast
    with IH \<open>q d\<close> \<open>\<not> p d\<close> have "segments p q False (x @ d # join [d] xs)
         = (x @ d # join [d] xs, [])
           # (map (apfst ((@) x)) (map (apfst ((#) d)) a1 @ [([], d # join [d] xs)]) @ a2)"
      by simp
    with False have "segments p q False (join [d] (x # xs))
         = (join [d] (x # xs), [])
           # (map (apfst ((@) x)) (map (apfst ((#) d)) a1 @ [([], d # join [d] xs)]) @ a2)"
      by (simp add: join_Cons)
    then show ?thesis by blast
  qed
qed

lemma join_set: "c \<in> set (join [d] xs) \<Longrightarrow> c = d \<or> (\<exists>x \<in> set xs. c \<in> set x)"
proof (induction xs)
  case Nil
  then show ?case by simp
next
  case (Cons x xs)
  then show ?case by (cases "xs = []") (auto simp: join_Cons)
qed

text \<open>The text of a release: decimal numbers between dots.\<close>

definition dotted :: "nat list \<Rightarrow> string" where
  "dotted ns = join ''.'' (map str_nat ns)"

lemma dotted_chars: "c \<in> set (dotted ns) \<Longrightarrow> c = CHR ''.'' \<or> is_digit c"
  unfolding dotted_def by (drule join_set) (auto dest: str_nat_digits)

lemma dotted_head:
  assumes "ns \<noteq> []"
  shows "\<exists>c cs. dotted ns = c # cs \<and> is_digit c"
proof -
  from assms obtain n ns' where ns: "ns = n # ns'" by (cases ns) auto
  obtain c cs where s: "str_nat n = c # cs"
    using str_nat_nonempty [of n] by (cases "str_nat n") auto
  then have "c \<in> set (str_nat n)" by simp
  then have "is_digit c" by (rule str_nat_digits)
  moreover have "dotted ns = c # cs @ (if ns' = [] then [] else ''.'' @ dotted ns')"
    using ns s by (cases "ns' = []") (simp_all add: dotted_def join_Cons)
  ultimately show ?thesis by blast
qed

lemma release_group_dotted:
  assumes "ns \<noteq> []"
  shows "\<exists>alts. release_group (dotted ns) = (dotted ns, []) # alts"
proof -
  have "\<forall>x \<in> set (map str_nat ns). x \<noteq> [] \<and> (\<forall>c \<in> set x. is_digit c)"
    by (auto simp: str_nat_nonempty dest: str_nat_digits)
  moreover from assms have "map str_nat ns \<noteq> []" by simp
  moreover have "\<not> is_digit (CHR ''.'')" by (simp add: is_digit_def)
  ultimately show ?thesis
    unfolding release_group_def dotted_def
    using segments_join [of "map str_nat ns" is_digit "\<lambda>c. c = CHR ''.''" "CHR ''.''"]
    by simp
qed

lemma v_opt_digit: "is_digit c \<Longrightarrow> v_opt (c # cs) = [c # cs]"
proof -
  assume d: "is_digit c"
  then have "lower_char c = c" by (rule digit_lower)
  moreover from d have "c \<noteq> CHR ''v''" by (auto simp: is_digit_def)
  ultimately show ?thesis by (simp add: v_opt_def lit_ci_def lower_def)
qed

lemma epoch_group_none:
  assumes "CHR ''!'' \<notin> set s"
  shows "epoch_group s = [(None, s)]"
proof -
  have "lit ''!'' s1 = []" if "(e, s1) \<in> set (chars_plus is_digit s)" for e s1
  proof -
    from that have "s = e @ s1" by (rule chars_plus_decompose)
    with assms have "CHR ''!'' \<notin> set s1" by simp
    then show ?thesis by (cases s1) (auto simp: lit_def)
  qed
  then show ?thesis by (auto simp: epoch_group_def)
qed

lemma groups_at_end:
  "pre_group [] = [((None, None), [])]"
  "post_group [] = [((None, None, None), [])]"
  "dev_group [] = [((None, None), [])]"
  "local_group [] = [(None, [])]"
  by (simp_all add: pre_group_def post_group_def dev_group_def local_group_def letter_group_def
      sep_opt_def one_of_ci_def lit_ci_def lit_def lower_def)

lemma version_matches_dotted:
  assumes "ns \<noteq> []"
  shows "\<exists>ms. version_matches (dotted ns) =
           \<lparr>epoch_g = None, release_g = dotted ns, pre_l = None, pre_n = None, post_n1 = None,
             post_l = None, post_n2 = None, dev_l = None, dev_n = None, local_g = None\<rparr> # ms"
proof -
  from dotted_head [OF assms] obtain c cs where h: "dotted ns = c # cs" "is_digit c"
    by blast
  have a: "ws_star (dotted ns) = [dotted ns]"
    using h by (simp add: digit_not_space)
  have b: "v_opt (dotted ns) = [dotted ns]"
    using h by (simp add: v_opt_digit)
  have "CHR ''!'' \<notin> set (dotted ns)"
    using dotted_chars [of "CHR ''!''" ns] by (auto simp: is_digit_def)
  then have c: "epoch_group (dotted ns) = [(None, dotted ns)]"
    by (rule epoch_group_none)
  from release_group_dotted [OF assms] obtain alts where
    d: "release_group (dotted ns) = (dotted ns, []) # alts"
    by blast
  show ?thesis
    unfolding version_matches_def
    by (simp add: a b c d groups_at_end)
qed

text \<open>The version that has a release and nothing else, as \<^verbatim>\<open>Version\<close> builds it.\<close>

definition final_release :: "nat list \<Rightarrow> version" where
  "final_release ns =
     \<lparr>epoch = 0, release = ns, dev = None, pre = None, post = None, local = None,
      raw_version = dotted ns\<rparr>"

lemma Version_dotted:
  assumes "ns \<noteq> []"
  shows "Version (dotted ns) = Inr (final_release ns)"
proof -
  from version_matches_dotted [OF assms] obtain ms where
    "version_matches (dotted ns) =
           \<lparr>epoch_g = None, release_g = dotted ns, pre_l = None, pre_n = None, post_n1 = None,
             post_l = None, post_n2 = None, dev_l = None, dev_n = None, local_g = None\<rparr> # ms"
    by blast
  then have "regex_search (dotted ns) =
      Some \<lparr>epoch_g = None, release_g = dotted ns, pre_l = None, pre_n = None, post_n1 = None,
             post_l = None, post_n2 = None, dev_l = None, dev_n = None, local_g = None\<rparr>"
    by (simp add: regex_search_def)
  moreover have "map int_of_digits (split_on (\<lambda>c. c = CHR ''.'') (dotted ns)) = ns"
    unfolding dotted_def using assms by (rule split_dots_release)
  ultimately show ?thesis
    by (simp add: Version_def final_release_def truthy_def parse_letter_version_def
        parse_local_version_def)
qed

lemma str_Version_final_release: "str_Version (final_release ns) = dotted ns"
  by (simp add: str_Version_def final_release_def dotted_def)

section \<open>The filters and the maximum\<close>

lemma SpecifierSet_loop_filtered:
  "prereleases \<noteq> Some True \<Longrightarrow>
     fst (SpecifierSet_loop prereleases filtered found items)
       = filtered @ filter (\<lambda>v. \<not> is_prerelease v) items"
  by (induction items arbitrary: filtered found) auto

lemma SpecifierSet_filter_no_prereleases:
  "SpecifierSet_filter (Some False) items = filter (\<lambda>v. \<not> is_prerelease v) items"
proof -
  obtain filtered found where l: "SpecifierSet_loop (Some False) [] [] items = (filtered, found)"
    by (cases "SpecifierSet_loop (Some False) [] [] items")
  have "fst (SpecifierSet_loop (Some False) [] [] items) = filter (\<lambda>v. \<not> is_prerelease v) items"
    by (simp add: SpecifierSet_loop_filtered)
  with l show ?thesis
    by (simp add: SpecifierSet_filter_def)
qed

lemma compare_less_than_final:
  assumes "Version spec_str = Inr c" and "\<not> is_prerelease v"
  shows "compare_less_than v spec_str = Inr (Version_lt v c)"
  using assms by (simp add: compare_less_than_def)

lemma Specifier_loop_final:
  assumes "Version spec_str = Inr c" and "\<forall>v \<in> set items. \<not> is_prerelease v"
  shows "Specifier_loop spec_str False items = Inr (filter (\<lambda>v. Version_lt v c) items, [])"
  using assms(2)
proof (induction items)
  case Nil
  then show ?case by simp
next
  case (Cons v vs)
  then have "Specifier_loop spec_str False vs = Inr (filter (\<lambda>v. Version_lt v c) vs, [])"
    and "\<not> is_prerelease v"
    by simp_all
  with assms(1) show ?case
    by (simp add: Specifier_contains_def compare_less_than_final)
qed

lemma SpecifierSet_lt_filter_final:
  assumes "Version spec_str = Inr c" and "\<forall>v \<in> set items. \<not> is_prerelease v"
  shows "SpecifierSet_lt_filter spec_str items = Inr (filter (\<lambda>v. Version_lt v c) items)"
  using Specifier_loop_final [OF assms]
  by (simp add: SpecifierSet_lt_filter_def Specifier_filter_def)

lemma max_loop_greatest:
  "max_loop best vs \<in> set (best # vs) \<and> (\<forall>u \<in> set (best # vs). key u \<le> key (max_loop best vs))"
proof (induction vs arbitrary: best)
  case Nil
  then show ?case by simp
next
  case (Cons v vs)
  let ?b = "if Version_gt v best then v else best"
  from Cons [of ?b] have m: "max_loop ?b vs \<in> set (?b # vs)"
    and g: "\<forall>u \<in> set (?b # vs). key u \<le> key (max_loop ?b vs)"
    by blast+
  from g have "key ?b \<le> key (max_loop ?b vs)" by simp
  moreover have "key best \<le> key ?b" "key v \<le> key ?b"
    by (auto simp: Version_gt_def)
  ultimately have "key best \<le> key (max_loop ?b vs)" "key v \<le> key (max_loop ?b vs)"
    by (blast intro: order_trans)+
  with m g show ?case by auto
qed

lemma py_max_sorted_greatest:
  assumes "vs \<noteq> []"
  shows "\<exists>m \<in> set vs. py_max (sorted_versions vs) = Inr m \<and> (\<forall>u \<in> set vs. Version_le u m)"
proof -
  have s: "set (sorted_versions vs) = set vs"
    by (simp add: sorted_versions_def)
  with assms obtain v vs' where c: "sorted_versions vs = v # vs'"
    by (cases "sorted_versions vs") auto
  from max_loop_greatest [of v vs'] c s
  have "max_loop v vs' \<in> set vs" "\<forall>u \<in> set vs. key u \<le> key (max_loop v vs')"
    by auto
  moreover from c have "py_max (sorted_versions vs) = Inr (max_loop v vs')"
    by (simp add: py_max_def)
  ultimately show ?thesis
    by (auto simp: Version_le_def)
qed

lemma py_max_sorted_empty:
  "py_max (sorted_versions []) = Inl (ValueError ''max() arg is an empty sequence'')"
  by (simp add: py_max_def sorted_versions_def)

section \<open>The resolver as a filter and a maximum\<close>

lemma Version_raw: "Version s = Inr v \<Longrightarrow> raw_version v = s"
  by (auto simp: Version_def split: option.splits)

lemma Version_raises: "Version s = Inl e \<Longrightarrow> e = InvalidVersion (''Invalid version: '' @ s)"
  by (auto simp: Version_def split: option.splits)

lemma Version_release_nonempty: "Version s = Inr v \<Longrightarrow> release v \<noteq> []"
  by (auto simp: Version_def split_on_nonempty split: option.splits)

lemma parse_versions_member:
  "v \<in> set (parse_versions versions) \<longleftrightarrow> (\<exists>s \<in> set versions. Version s = Inr v)"
  by (induction versions) (auto split: sum.splits)

text \<open>The ceiling: the prefix with one added to its last component.\<close>

definition bump :: "nat list \<Rightarrow> nat list" where
  "bump c = c [length c - 1 := last c + 1]"

text \<open>
  The versions that pass both filters: the parsed known versions that are no pre-release
  and, when the prefix of the current release is not empty, are below the ceiling.
\<close>

definition eligible :: "version \<Rightarrow> target \<Rightarrow> string list \<Rightarrow> version list" where
  "eligible cv target versions =
     filter (\<lambda>v. \<not> is_prerelease v \<and>
                 (take (SEMVER target) (release cv) = [] \<or>
                  Version_lt v (final_release (bump (take (SEMVER target) (release cv))))))
       (parse_versions versions)"

lemma determine_latest_version_eq:
  assumes "Version current_version = Inr cv"
  shows "determine_latest_version current_version target versions =
           (case py_max (sorted_versions (eligible cv target versions)) of
              Inl e \<Rightarrow> Inl e
            | Inr v \<Rightarrow> Inr (raw_version v))"
proof -
  define pfx where "pfx = take (SEMVER target) (release cv)"
  define np where "np = filter (\<lambda>v. \<not> is_prerelease v) (parse_versions versions)"
  have d: "determine_latest_version current_version target versions =
      (case (if length pfx = 0 then Inr None
             else map_sum id Some (Version (dotted (bump pfx)))) of
         Inl e \<Rightarrow> Inl e
       | Inr ceiling_version \<Rightarrow>
           (case (case ceiling_version of
                    None \<Rightarrow> Inr np
                  | Some c \<Rightarrow> SpecifierSet_lt_filter (str_Version c) np) of
              Inl e \<Rightarrow> Inl e
            | Inr below \<Rightarrow>
                (case py_max (sorted_versions below) of
                   Inl e \<Rightarrow> Inl e
                 | Inr v \<Rightarrow> Inr (raw_version v))))"
    unfolding determine_latest_version_def Let_def pfx_def np_def bump_def dotted_def
      PRERELEASES_def SpecifierSet_filter_no_prereleases
    by (simp only: assms sum.case)
  have e: "eligible cv target versions =
      (if pfx = [] then np else filter (\<lambda>v. Version_lt v (final_release (bump pfx))) np)"
    by (simp add: eligible_def pfx_def np_def conj_commute)
  show ?thesis
  proof (cases "pfx = []")
    case True
    with d e show ?thesis by simp
  next
    case False
    then have "bump pfx \<noteq> []" by (simp add: bump_def)
    then have v: "Version (dotted (bump pfx)) = Inr (final_release (bump pfx))"
      by (rule Version_dotted)
    have "\<forall>v \<in> set np. \<not> is_prerelease v" by (simp add: np_def)
    with v have "SpecifierSet_lt_filter (dotted (bump pfx)) np
        = Inr (filter (\<lambda>v. Version_lt v (final_release (bump pfx))) np)"
      by (rule SpecifierSet_lt_filter_final)
    with d e False v show ?thesis
      by (simp add: str_Version_final_release)
  qed
qed

section \<open>The order of releases\<close>

text \<open>
  The order of the specification on release vectors: component by component, a missing
  trailing component counting as 0.
\<close>

fun release_less_padded :: "nat list \<Rightarrow> nat list \<Rightarrow> bool" where
  "release_less_padded [] [] = False"
| "release_less_padded [] (y # ys) = (0 < y \<or> (0 = y \<and> release_less_padded [] ys))"
| "release_less_padded (x # xs) [] = (x < 0 \<or> (x = 0 \<and> release_less_padded xs []))"
| "release_less_padded (x # xs) (y # ys) = (x < y \<or> (x = y \<and> release_less_padded xs ys))"

text \<open>The release inside the key: trailing zeros are dropped.\<close>

definition strip_zeros :: "nat list \<Rightarrow> nat list" where
  "strip_zeros r = rev (dropWhile (\<lambda>x. x = 0) (rev r))"

lemma strip_zeros_Nil: "strip_zeros [] = []"
  by (simp add: strip_zeros_def)

lemma strip_zeros_Cons:
  "strip_zeros (x # xs) = (if x = 0 \<and> strip_zeros xs = [] then [] else x # strip_zeros xs)"
  by (auto simp: strip_zeros_def dropWhile_append)

lemma Nil_less_iff: "([] :: nat list) < xs \<longleftrightarrow> xs \<noteq> []"
  by (cases xs) simp_all

lemma strip_zeros_less_iff:
  "strip_zeros xs < strip_zeros ys \<longleftrightarrow> release_less_padded xs ys"
proof (induction xs ys rule: release_less_padded.induct)
  case 1
  then show ?case by (simp add: strip_zeros_Nil)
next
  case (2 y ys)
  then show ?case by (auto simp: strip_zeros_Nil strip_zeros_Cons Nil_less_iff)
next
  case (3 x xs)
  then show ?case by (auto simp: strip_zeros_Nil strip_zeros_Cons)
next
  case (4 x xs y ys)
  then show ?case by (auto simp: strip_zeros_Nil strip_zeros_Cons Nil_less_iff)
qed

lemma key_eq:
  "key v = (epoch v, strip_zeros (release v),
            (if pre v = None \<and> post v = None \<and> dev v \<noteq> None then NegativeInfinity
             else case pre v of None \<Rightarrow> Infinity | Some x \<Rightarrow> Finite x),
            (case post v of None \<Rightarrow> NegativeInfinity | Some x \<Rightarrow> Finite x),
            (case dev v of None \<Rightarrow> Infinity | Some x \<Rightarrow> Finite x),
            (case local v of
               None \<Rightarrow> NegativeInfinity
             | Some parts \<Rightarrow>
                 Finite (map (\<lambda>i. case i of LocalInt n \<Rightarrow> (Finite n, [])
                                     | LocalStr s \<Rightarrow> (NegativeInfinity, s)) parts)))"
  by (simp add: key_def cmpkey_def strip_zeros_def)

lemma Version_lt_same_segments:
  assumes "epoch a = epoch b" "pre a = pre b" "post a = post b" "dev a = dev b" "local a = local b"
  shows "Version_lt a b \<longleftrightarrow> release_less_padded (release a) (release b)"
  using assms by (simp add: Version_lt_def key_eq strip_zeros_less_iff [symmetric])

lemma bump_Cons: "t \<noteq> [] \<Longrightarrow> bump (x # t) = x # bump t"
  by (cases t rule: rev_cases) (simp_all add: bump_def)

lemma bump_single: "bump [x] = [x + 1]"
  by (simp add: bump_def)

lemma release_below_bumped_prefix:
  "take k r \<noteq> [] \<Longrightarrow> release_less_padded r (bump (take k r))"
proof (induction r arbitrary: k)
  case Nil
  then show ?case by simp
next
  case (Cons x xs)
  then obtain k' where k: "k = Suc k'" by (cases k) auto
  then have t: "take k (x # xs) = x # take k' xs" by simp
  show ?case
  proof (cases "take k' xs = []")
    case True
    show ?thesis unfolding t True by (simp add: bump_single)
  next
    case False
    with Cons.IH have "release_less_padded xs (bump (take k' xs))" by blast
    moreover from False have "bump (x # take k' xs) = x # bump (take k' xs)"
      by (rule bump_Cons)
    ultimately show ?thesis unfolding t by simp
  qed
qed

lemma final_release_plain:
  "epoch (final_release ns) = 0" "release (final_release ns) = ns"
  "pre (final_release ns) = None" "post (final_release ns) = None"
  "dev (final_release ns) = None" "local (final_release ns) = None"
  by (simp_all add: final_release_def)

lemma below_ceiling_iff:
  assumes "\<not> is_prerelease cv" and "take k (release cv) \<noteq> []"
  shows "Version_lt cv (final_release (bump (take k (release cv)))) \<longleftrightarrow> epoch cv = 0"
proof -
  from assms(2) have "release_less_padded (release cv) (bump (take k (release cv)))"
    by (rule release_below_bumped_prefix)
  then have "strip_zeros (release cv) < strip_zeros (bump (take k (release cv)))"
    by (simp add: strip_zeros_less_iff)
  with assms(1) show ?thesis
    by (auto simp: Version_lt_def key_eq final_release_plain is_prerelease_def)
qed

section \<open>Claims about the version resolver\<close>

text \<open>
  The candidates of a resolution: the known versions that parse and are no pre-release,
  and, under a ceiling, those of them that are below it.
\<close>

definition final_candidates :: "string list \<Rightarrow> version list" where
  "final_candidates versions = filter (\<lambda>v. \<not> is_prerelease v) (parse_versions versions)"

definition ceiling_of :: "version \<Rightarrow> target \<Rightarrow> version" where
  "ceiling_of cv target = final_release (bump (take (SEMVER target) (release cv)))"

definition below_ceiling :: "version \<Rightarrow> target \<Rightarrow> string list \<Rightarrow> version list" where
  "below_ceiling cv target versions =
     filter (\<lambda>v. Version_lt v (ceiling_of cv target)) (final_candidates versions)"

definition NoEligibleVersion :: exn where
  "NoEligibleVersion = ValueError ''max() arg is an empty sequence''"

definition is_valid_version :: "string \<Rightarrow> bool" where
  "is_valid_version s = (case Version s of Inl e \<Rightarrow> False | Inr v \<Rightarrow> True)"

lemma eligible_Major: "eligible cv Major versions = final_candidates versions"
  by (simp add: eligible_def final_candidates_def)

lemma eligible_ceiling:
  "take (SEMVER target) (release cv) \<noteq> [] \<Longrightarrow>
     eligible cv target versions = below_ceiling cv target versions"
  by (simp add: eligible_def below_ceiling_def final_candidates_def ceiling_of_def)

lemma resolve_maximum:
  assumes "Version current = Inr cv"
  shows "(eligible cv target versions = [] \<longrightarrow>
            determine_latest_version current target versions = Inl NoEligibleVersion)
       \<and> (eligible cv target versions \<noteq> [] \<longrightarrow>
            (\<exists>m \<in> set (eligible cv target versions).
               determine_latest_version current target versions = Inr (raw_version m)
               \<and> (\<forall>u \<in> set (eligible cv target versions). Version_le u m)))"
proof (cases "eligible cv target versions = []")
  case True
  with assms show ?thesis
    by (simp add: determine_latest_version_eq py_max_sorted_empty NoEligibleVersion_def)
next
  case False
  from py_max_sorted_greatest [OF False] obtain m where
    "m \<in> set (eligible cv target versions)"
    "py_max (sorted_versions (eligible cv target versions)) = Inr m"
    "\<forall>u \<in> set (eligible cv target versions). Version_le u m"
    by blast
  with assms False show ?thesis
    by (auto simp: determine_latest_version_eq)
qed

lemma resolve_depends_on_parsed:
  assumes "parse_versions versions = parse_versions versions'"
  shows "determine_latest_version current target versions
           = determine_latest_version current target versions'"
  unfolding determine_latest_version_def assms by (rule refl)

lemma is_valid_version_iff: "is_valid_version s \<longleftrightarrow> (\<exists>v. Version s = Inr v)"
  by (cases "Version s") (simp_all add: is_valid_version_def)

lemma parse_versions_valid:
  "parse_versions (filter is_valid_version versions) = parse_versions versions"
  by (induction versions) (auto simp: is_valid_version_def split: sum.splits)

lemma resolve_result_known:
  assumes "determine_latest_version current target versions = Inr r"
  shows "r \<in> set versions \<and> is_valid_version r"
proof -
  from assms obtain cv where cv: "Version current = Inr cv"
    by (cases "Version current") (auto simp: determine_latest_version_def)
  from resolve_maximum [OF cv, of target versions] assms
  obtain m where "m \<in> set (eligible cv target versions)" "r = raw_version m"
    by (cases "eligible cv target versions = []") auto
  then have "m \<in> set (parse_versions versions)" "r = raw_version m"
    by (simp_all add: eligible_def)
  then obtain s where "s \<in> set versions" "Version s = Inr m" "r = raw_version m"
    by (auto simp: parse_versions_member)
  then show ?thesis
    by (auto simp: is_valid_version_iff dest: Version_raw)
qed

text \<open>
  C7. A known version string that does not parse is passed over: the result of
  \<^verbatim>\<open>_determine_latest_version\<close> is always one of the known strings that parse, and the
  call gives the same result, or raises the same error, as on the known strings without
  those that do not parse. With \<^verbatim>\<open>not-a-version\<close> beside \<^verbatim>\<open>2.5.4\<close> the result is
  \<^verbatim>\<open>2.5.4\<close>.
\<close>

theorem unparsable_versions_dropped:
  "(\<forall>r. determine_latest_version current target versions = Inr r \<longrightarrow>
        r \<in> set versions \<and> is_valid_version r)
   \<and> determine_latest_version current target (filter is_valid_version versions)
       = determine_latest_version current target versions
   \<and> \<not> is_valid_version ''not-a-version''
   \<and> determine_latest_version ''2.5.3'' Minor [''not-a-version'', ''2.5.4''] = Inr ''2.5.4''"
proof -
  have "\<not> is_valid_version ''not-a-version''"
    by code_simp
  moreover have "determine_latest_version ''2.5.3'' Minor [''not-a-version'', ''2.5.4'']
      = Inr ''2.5.4''"
    by code_simp
  moreover have "determine_latest_version current target (filter is_valid_version versions)
       = determine_latest_version current target versions"
    by (rule resolve_depends_on_parsed) (rule parse_versions_valid)
  ultimately show ?thesis
    using resolve_result_known by blast
qed

theorem unparsable_versions_dropped_witness:
  "determine_latest_version ''1.0'' Major [''2.0'', ''build+meta'', ''1.5''] = Inr ''2.0''
   \<and> ''2.0'' \<in> set [''2.0'', ''build+meta'', ''1.5'']
   \<and> is_valid_version ''2.0''
   \<and> filter is_valid_version [''2.0'', ''build+meta'', ''1.5''] = [''2.0'', ''1.5'']
   \<and> determine_latest_version ''1.0'' Major [''2.0'', ''1.5''] = Inr ''2.0''"
proof -
  have r: "determine_latest_version ''1.0'' Major [''2.0'', ''build+meta'', ''1.5''] = Inr ''2.0''"
    by code_simp
  have f: "filter is_valid_version [''2.0'', ''build+meta'', ''1.5''] = [''2.0'', ''1.5'']"
    by code_simp
  note t = unparsable_versions_dropped [of "''1.0''" Major "[''2.0'', ''build+meta'', ''1.5'']"]
  from t r have a: "''2.0'' \<in> set [''2.0'', ''build+meta'', ''1.5''] \<and> is_valid_version ''2.0''"
    by blast
  from t have "determine_latest_version ''1.0'' Major
      (filter is_valid_version [''2.0'', ''build+meta'', ''1.5''])
      = determine_latest_version ''1.0'' Major [''2.0'', ''build+meta'', ''1.5'']"
    by blast
  then have b: "determine_latest_version ''1.0'' Major [''2.0'', ''1.5''] = Inr ''2.0''"
    unfolding f r .
  from r a f b show ?thesis by blast
qed

text \<open>Versions used as concrete inputs below.\<close>

definition v_2_5_3 :: version where
  "v_2_5_3 = \<lparr>epoch = 0, release = [2, 5, 3], dev = None, pre = None, post = None,
              local = None, raw_version = ''2.5.3''\<rparr>"

definition v_1_0 :: version where
  "v_1_0 = \<lparr>epoch = 0, release = [1, 0], dev = None, pre = None, post = None,
            local = None, raw_version = ''1.0''\<rparr>"

text \<open>
  C1 (counterexample). \<^verbatim>\<open>2.9.0rc1\<close> parses, is known and is below the ceiling \<^verbatim>\<open>3\<close> of
  \<^verbatim>\<open>2.5.3\<close> under \<open>minor\<close>, and it is greater than \<^verbatim>\<open>2.5.4\<close>; yet the result is \<^verbatim>\<open>2.5.4\<close>,
  because pre-releases are filtered out first.
\<close>

theorem resolve_minor_prerelease_counterexample:
  "determine_latest_version ''2.5.3'' Minor [''2.5.4'', ''2.9.0rc1''] = Inr ''2.5.4''
   \<and> (case (Version ''2.5.4'', Version ''2.9.0rc1'') of
        (Inr a, Inr b) \<Rightarrow> Version_lt a b \<and> Version_lt b (ceiling_of v_2_5_3 Minor)
      | _ \<Rightarrow> False)"
  by code_simp

text \<open>
  C1 (as amended). For a current version whose release has at least as many components
  as the target asks for (1 for \<open>minor\<close>, 2 for \<open>patch\<close>), the ceiling is the version whose
  release is the prefix of that length with one added to its last component, and
  \<^verbatim>\<open>_determine_latest_version\<close> returns the string of a greatest one among the known
  versions that parse, are no pre-release and are strictly below the ceiling; it raises
  when there is none. For \<^verbatim>\<open>2.5.3\<close>, \<open>minor\<close> and the known versions \<^verbatim>\<open>2.5.4\<close>, \<^verbatim>\<open>2.6.0\<close>,
  \<^verbatim>\<open>3.0.0\<close> the result is \<^verbatim>\<open>2.6.0\<close>; for \<^verbatim>\<open>2.5.3\<close>, \<open>patch\<close> and \<^verbatim>\<open>2.5.4\<close>, \<^verbatim>\<open>2.5.10\<close>,
  \<^verbatim>\<open>2.6.0\<close> it is \<^verbatim>\<open>2.5.10\<close>.
\<close>

theorem resolve_below_ceiling:
  assumes "Version current = Inr cv"
    and "target = Minor \<or> target = Patch"
    and "SEMVER target \<le> length (release cv)"
  shows "length (take (SEMVER target) (release cv)) = SEMVER target
       \<and> (below_ceiling cv target versions = [] \<longrightarrow>
            determine_latest_version current target versions = Inl NoEligibleVersion)
       \<and> (below_ceiling cv target versions \<noteq> [] \<longrightarrow>
            (\<exists>m \<in> set (below_ceiling cv target versions).
               determine_latest_version current target versions = Inr (raw_version m)
               \<and> (\<forall>u \<in> set (below_ceiling cv target versions). Version_le u m)))
       \<and> determine_latest_version ''2.5.3'' Minor [''2.5.4'', ''2.6.0'', ''3.0.0''] = Inr ''2.6.0''
       \<and> determine_latest_version ''2.5.3'' Patch [''2.5.4'', ''2.5.10'', ''2.6.0''] = Inr ''2.5.10''"
proof -
  have "determine_latest_version ''2.5.3'' Minor [''2.5.4'', ''2.6.0'', ''3.0.0''] = Inr ''2.6.0''"
    by code_simp
  moreover
  have "determine_latest_version ''2.5.3'' Patch [''2.5.4'', ''2.5.10'', ''2.6.0''] = Inr ''2.5.10''"
    by code_simp
  moreover from assms(2) have "0 < SEMVER target" by auto
  with assms(3) have n: "take (SEMVER target) (release cv) \<noteq> []" by auto
  moreover from assms(3) have "length (take (SEMVER target) (release cv)) = SEMVER target"
    by simp
  moreover note resolve_maximum [OF assms(1), of target versions]
  ultimately show ?thesis
    by (simp add: eligible_ceiling [OF n])
qed

theorem resolve_below_ceiling_witness:
  "Version ''2.5.3'' = Inr v_2_5_3
   \<and> SEMVER Patch \<le> length (release v_2_5_3)
   \<and> release (ceiling_of v_2_5_3 Patch) = [2, 6]
   \<and> map raw_version (below_ceiling v_2_5_3 Patch [''2.5.4'', ''2.5.10'', ''2.6.0''])
        = [''2.5.4'', ''2.5.10'']
   \<and> (\<exists>m \<in> set (below_ceiling v_2_5_3 Patch [''2.5.4'', ''2.5.10'', ''2.6.0'']).
         determine_latest_version ''2.5.3'' Patch [''2.5.4'', ''2.5.10'', ''2.6.0'']
           = Inr (raw_version m)
         \<and> (\<forall>u \<in> set (below_ceiling v_2_5_3 Patch [''2.5.4'', ''2.5.10'', ''2.6.0'']).
               Version_le u m))"
proof -
  have v: "Version ''2.5.3'' = Inr v_2_5_3"
    by code_simp
  have l: "SEMVER Patch \<le> length (release v_2_5_3)"
    by (simp add: v_2_5_3_def)
  have c: "release (ceiling_of v_2_5_3 Patch) = [2, 6]"
    by code_simp
  have b: "map raw_version (below_ceiling v_2_5_3 Patch [''2.5.4'', ''2.5.10'', ''2.6.0''])
        = [''2.5.4'', ''2.5.10'']"
    by code_simp
  then have n: "below_ceiling v_2_5_3 Patch [''2.5.4'', ''2.5.10'', ''2.6.0''] \<noteq> []"
    by auto
  from resolve_below_ceiling [OF v _ l, of "[''2.5.4'', ''2.5.10'', ''2.6.0'']"] n
  have "\<exists>m \<in> set (below_ceiling v_2_5_3 Patch [''2.5.4'', ''2.5.10'', ''2.6.0'']).
         determine_latest_version ''2.5.3'' Patch [''2.5.4'', ''2.5.10'', ''2.6.0'']
           = Inr (raw_version m)
         \<and> (\<forall>u \<in> set (below_ceiling v_2_5_3 Patch [''2.5.4'', ''2.5.10'', ''2.6.0'']).
               Version_le u m)"
    by blast
  with v l c b show ?thesis by blast
qed

text \<open>
  C6 (counterexample). With the target \<open>major\<close>, \<^verbatim>\<open>3.0rc1\<close> parses, is known and has a
  greater major component than the current \<^verbatim>\<open>1.0\<close>, and it is greater than \<^verbatim>\<open>2.0\<close>; yet
  the result is \<^verbatim>\<open>2.0\<close>: a pre-release is not eligible.
\<close>

theorem resolve_major_prerelease_counterexample:
  "determine_latest_version ''1.0'' Major [''2.0'', ''3.0rc1''] = Inr ''2.0''
   \<and> (case (Version ''2.0'', Version ''3.0rc1'') of
        (Inr a, Inr b) \<Rightarrow> Version_lt a b \<and> release b = [3, 0]
      | _ \<Rightarrow> False)"
  by code_simp

text \<open>
  C6 (as amended). With the target \<open>major\<close> there is no upper bound: every known
  version that parses and is no pre-release is a candidate, whatever its major component,
  and \<^verbatim>\<open>_determine_latest_version\<close> returns the string of a greatest candidate (it raises
  when there is none).
\<close>

theorem resolve_major_unbounded:
  assumes "Version current = Inr cv"
  shows "(final_candidates versions = [] \<longrightarrow>
            determine_latest_version current Major versions = Inl NoEligibleVersion)
       \<and> (final_candidates versions \<noteq> [] \<longrightarrow>
            (\<exists>m \<in> set (final_candidates versions).
               determine_latest_version current Major versions = Inr (raw_version m)
               \<and> (\<forall>u \<in> set (final_candidates versions). Version_le u m)))
       \<and> (\<forall>s v. s \<in> set versions \<and> Version s = Inr v \<and> \<not> is_prerelease v \<longrightarrow>
            v \<in> set (final_candidates versions))"
proof -
  have "\<forall>s v. s \<in> set versions \<and> Version s = Inr v \<and> \<not> is_prerelease v \<longrightarrow>
            v \<in> set (final_candidates versions)"
    by (auto simp: final_candidates_def parse_versions_member)
  with resolve_maximum [OF assms, of Major versions] show ?thesis
    by (simp add: eligible_Major)
qed

theorem resolve_major_unbounded_witness:
  "Version ''1.0'' = Inr v_1_0
   \<and> map raw_version (final_candidates [''2.0'', ''40.1'', ''3.0rc1'']) = [''2.0'', ''40.1'']
   \<and> determine_latest_version ''1.0'' Major [''2.0'', ''40.1'', ''3.0rc1''] = Inr ''40.1''
   \<and> (\<exists>m \<in> set (final_candidates [''2.0'', ''40.1'', ''3.0rc1'']).
         determine_latest_version ''1.0'' Major [''2.0'', ''40.1'', ''3.0rc1''] = Inr (raw_version m)
         \<and> (\<forall>u \<in> set (final_candidates [''2.0'', ''40.1'', ''3.0rc1'']). Version_le u m))"
proof -
  have v: "Version ''1.0'' = Inr v_1_0"
    by code_simp
  have b: "map raw_version (final_candidates [''2.0'', ''40.1'', ''3.0rc1'']) = [''2.0'', ''40.1'']"
    by code_simp
  then have n: "final_candidates [''2.0'', ''40.1'', ''3.0rc1''] \<noteq> []"
    by auto
  have r: "determine_latest_version ''1.0'' Major [''2.0'', ''40.1'', ''3.0rc1''] = Inr ''40.1''"
    by code_simp
  from resolve_major_unbounded [OF v, of "[''2.0'', ''40.1'', ''3.0rc1'']"] n
  have "\<exists>m \<in> set (final_candidates [''2.0'', ''40.1'', ''3.0rc1'']).
         determine_latest_version ''1.0'' Major [''2.0'', ''40.1'', ''3.0rc1''] = Inr (raw_version m)
         \<and> (\<forall>u \<in> set (final_candidates [''2.0'', ''40.1'', ''3.0rc1'']). Version_le u m)"
    by blast
  with v b r show ?thesis by blast
qed

text \<open>
  C2 (counterexample). On the set that holds the current version only, nothing is raised:
  for each of the three targets the current version itself is returned.
\<close>

theorem resolve_only_current_counterexample:
  "determine_latest_version ''2.5.3'' Major [''2.5.3''] = Inr ''2.5.3''
   \<and> determine_latest_version ''2.5.3'' Minor [''2.5.3''] = Inr ''2.5.3''
   \<and> determine_latest_version ''2.5.3'' Patch [''2.5.3''] = Inr ''2.5.3''"
  by code_simp

text \<open>
  C2 (as amended). On the set that holds the current version only,
  \<^verbatim>\<open>_determine_latest_version\<close> returns the current version, for every target, when the
  current version is no pre-release and, for \<open>minor\<close> and \<open>patch\<close>, has epoch 0 (the
  ceiling has); in the other cases no candidate is left and it raises. The caller finds
  that the result equals the declared version.
\<close>

theorem resolve_only_current:
  assumes "Version current = Inr cv"
  shows "determine_latest_version current target [current] =
           (if \<not> is_prerelease cv \<and> (target = Major \<or> epoch cv = 0) then Inr current
            else Inl NoEligibleVersion)"
proof -
  from assms have raw: "raw_version cv = current" by (rule Version_raw)
  from assms have ne: "release cv \<noteq> []" by (rule Version_release_nonempty)
  have e: "eligible cv target [current] =
      (if \<not> is_prerelease cv \<and> (target = Major \<or> epoch cv = 0) then [cv] else [])"
  proof (cases "is_prerelease cv")
    case True
    then show ?thesis by (simp add: eligible_def assms)
  next
    case False
    show ?thesis
    proof (cases "target = Major")
      case True
      with False show ?thesis by (simp add: eligible_def assms)
    next
      case notMajor: False
      then have "0 < SEMVER target" by (cases target) simp_all
      with ne have t: "take (SEMVER target) (release cv) \<noteq> []" by simp
      from below_ceiling_iff [OF False t] False notMajor t show ?thesis
        by (simp add: eligible_def assms)
    qed
  qed
  from resolve_maximum [OF assms, of target "[current]"] raw show ?thesis
    unfolding e by (simp split: if_splits)
qed

theorem resolve_only_current_witness:
  "Version ''2.5.3'' = Inr v_2_5_3
   \<and> \<not> is_prerelease v_2_5_3
   \<and> epoch v_2_5_3 = 0
   \<and> determine_latest_version ''2.5.3'' Minor [''2.5.3''] = Inr ''2.5.3''"
proof -
  have v: "Version ''2.5.3'' = Inr v_2_5_3"
    by code_simp
  have p: "\<not> is_prerelease v_2_5_3" "epoch v_2_5_3 = 0"
    by (simp_all add: v_2_5_3_def is_prerelease_def)
  with resolve_only_current [OF v, of Minor] v show ?thesis
    by simp
qed

text \<open>
  C8 (counterexample). \<^verbatim>\<open>1.0\<close> is less than \<^verbatim>\<open>1.0.post1\<close>, and \<^verbatim>\<open>1.0a1\<close> is less than
  \<^verbatim>\<open>1.0\<close>, although in each pair the release vectors are the same, \<open>[1, 0]\<close>.
\<close>

theorem version_order_counterexample:
  "(case (Version ''1.0'', Version ''1.0.post1'') of
      (Inr a, Inr b) \<Rightarrow>
        Version_lt a b \<and> release a = [1, 0] \<and> release b = [1, 0]
        \<and> \<not> release_less_padded (release a) (release b)
    | _ \<Rightarrow> False)
   \<and> (case (Version ''1.0a1'', Version ''1.0'') of
      (Inr a, Inr b) \<Rightarrow>
        Version_lt a b \<and> \<not> release_less_padded (release a) (release b)
    | _ \<Rightarrow> False)"
  by code_simp

text \<open>
  C8 (as amended). For valid version strings \<open>a\<close> and \<open>b\<close> whose epoch and pre-release,
  post-release, development and local segments are the same (as when both are a release
  number and nothing else), \<open>parse(a) < parse(b)\<close> holds iff the release vectors compare
  less component by component with missing trailing components taken as 0, and the two
  compare equal iff neither release vector is less than the other in that order;
  \<^verbatim>\<open>1.2\<close> and \<^verbatim>\<open>1.2.0\<close> compare equal. In general the key compares the epoch first, then
  the release, then the other segments.
\<close>

theorem version_order_same_segments:
  assumes "Version a = Inr va" and "Version b = Inr vb"
    and "epoch va = epoch vb" and "pre va = pre vb" and "post va = post vb"
    and "dev va = dev vb" and "local va = local vb"
  shows "(Version_lt va vb \<longleftrightarrow> release_less_padded (release va) (release vb))
       \<and> (Version_eq va vb \<longleftrightarrow>
            \<not> release_less_padded (release va) (release vb)
            \<and> \<not> release_less_padded (release vb) (release va))
       \<and> (case (Version ''1.2'', Version ''1.2.0'') of
            (Inr x, Inr y) \<Rightarrow> Version_eq x y \<and> \<not> Version_lt x y \<and> \<not> Version_lt y x
          | _ \<Rightarrow> False)"
proof -
  have "(case (Version ''1.2'', Version ''1.2.0'') of
            (Inr x, Inr y) \<Rightarrow> Version_eq x y \<and> \<not> Version_lt x y \<and> \<not> Version_lt y x
          | _ \<Rightarrow> False)"
    by code_simp
  moreover have "Version_lt va vb \<longleftrightarrow> release_less_padded (release va) (release vb)"
    using assms by (simp add: Version_lt_same_segments)
  moreover have "Version_eq va vb \<longleftrightarrow>
            \<not> release_less_padded (release va) (release vb)
            \<and> \<not> release_less_padded (release vb) (release va)"
    using assms
    by (auto simp: Version_eq_def key_eq strip_zeros_less_iff [symmetric])
  ultimately show ?thesis by blast
qed

theorem version_order_same_segments_witness:
  "Version ''1.2'' = Inr \<lparr>epoch = 0, release = [1, 2], dev = None, pre = None, post = None,
                          local = None, raw_version = ''1.2''\<rparr>
   \<and> Version ''1.10.0'' = Inr \<lparr>epoch = 0, release = [1, 10, 0], dev = None, pre = None,
                              post = None, local = None, raw_version = ''1.10.0''\<rparr>
   \<and> release_less_padded [1, 2] [1, 10, 0]
   \<and> Version_lt \<lparr>epoch = 0, release = [1, 2], dev = None, pre = None, post = None,
                  local = None, raw_version = ''1.2''\<rparr>
                \<lparr>epoch = 0, release = [1, 10, 0], dev = None, pre = None, post = None,
                  local = None, raw_version = ''1.10.0''\<rparr>"
proof -
  have a: "Version ''1.2'' = Inr \<lparr>epoch = 0, release = [1, 2], dev = None, pre = None,
      post = None, local = None, raw_version = ''1.2''\<rparr>"
    by code_simp
  have b: "Version ''1.10.0'' = Inr \<lparr>epoch = 0, release = [1, 10, 0], dev = None, pre = None,
      post = None, local = None, raw_version = ''1.10.0''\<rparr>"
    by code_simp
  have r: "release_less_padded [1, 2] [1, 10, 0]"
    by simp
  from version_order_same_segments [OF a b] r a b show ?thesis
    by simp
qed

section \<open>Claims about the update pipeline\<close>

text \<open>
  A world with one package, \<^verbatim>\<open>/pkgs/foo\<close>: its file declares \<open>pname\<close> \<^verbatim>\<open>foo\<close> and the given
  version, the registry answers every request with status 200 and the given known
  versions, and the shell command prints the given inventory line.
\<close>

definition nix_file :: "string \<Rightarrow> string \<Rightarrow> string" where
  "nix_file name v =
     ''  pname = '' @ quoted name @ '';'' @ [CHR 0x0A]
     @ ''  version = '' @ quoted v @ '';'' @ [CHR 0x0A]"

definition foo_world :: "string \<Rightarrow> string list \<Rightarrow> string \<Rightarrow> world" where
  "foo_world declared known inventory_line =
     \<lparr>isdir = (\<lambda>p. p = ''/pkgs/foo''),
      files = (\<lambda>p. if p = ''/pkgs/foo/default.nix'' then Some (nix_file ''foo'' declared)
                    else None),
      requests_get = (\<lambda>url. Inr \<lparr>status_code = 200, json_releases = Some known\<rparr>),
      check_output = (\<lambda>cmd. inventory_line)\<rparr>"

text \<open>
  A world with two packages, \<^verbatim>\<open>/pkgs/foo\<close> and \<^verbatim>\<open>/pkgs/bar\<close>, both declared at \<^verbatim>\<open>1.0.0\<close>; the
  request for \<^verbatim>\<open>foo\<close> gets no answer (\<^verbatim>\<open>requests.get\<close> raises a connection error), the
  request for \<^verbatim>\<open>bar\<close> is answered with the known versions \<^verbatim>\<open>1.0.0\<close> and \<^verbatim>\<open>1.1.0\<close>.
\<close>

definition offline_world :: world where
  "offline_world =
     \<lparr>isdir = (\<lambda>p. p = ''/pkgs/foo'' \<or> p = ''/pkgs/bar''),
      files = (\<lambda>p. if p = ''/pkgs/foo/default.nix'' then Some (nix_file ''foo'' ''1.0.0'')
                    else if p = ''/pkgs/bar/default.nix'' then Some (nix_file ''bar'' ''1.0.0'')
                    else None),
      requests_get = (\<lambda>url. if url = ''https://pypi.io/pypi/foo/json''
                              then Inl (ConnectionError url)
                              else Inr \<lparr>status_code = 200,
                                       json_releases = Some [''1.0.0'', ''1.1.0'']\<rparr>),
      check_output = (\<lambda>cmd. ''bar-1.0.0'' @ [CHR 0x0A])\<rparr>"

text \<open>What a call of \<^verbatim>\<open>_update\<close> returned and printed, when it returned.\<close>

definition result_of :: "exn + (bool \<times> string list) \<Rightarrow> bool" where
  "result_of r = (case r of Inl e \<Rightarrow> False | Inr (b, out) \<Rightarrow> b)"

definition output_of :: "exn + (bool \<times> string list) \<Rightarrow> string list" where
  "output_of r = (case r of Inl e \<Rightarrow> [] | Inr (b, out) \<Rightarrow> out)"

definition returns :: "exn + 'a \<Rightarrow> bool" where
  "returns r = (case r of Inl e \<Rightarrow> False | Inr x \<Rightarrow> True)"

text \<open>The registry always answers, and an answer with status 200 has the releases.\<close>

definition registry_answers :: "world \<Rightarrow> bool" where
  "registry_answers w \<longleftrightarrow>
     (\<forall>url. \<exists>r. requests_get w url = Inr r \<and> (status_code r = 200 \<longrightarrow> json_releases r \<noteq> None))"

lemma get_unique_value_raises: "get_unique_value attribute text = Inl e \<Longrightarrow> is_ValueError e"
  by (auto simp: get_unique_value_def Let_def AmbiguousAttribute_def MissingAttribute_def
      split: if_splits)

lemma Version_raises_ValueError: "Version s = Inl e \<Longrightarrow> is_ValueError e"
  by (drule Version_raises) simp

lemma determine_latest_version_raises:
  assumes "determine_latest_version current target versions = Inl e"
  shows "is_ValueError e"
proof (cases "Version current")
  case (Inl e')
  with assms have "e = e'" by (simp add: determine_latest_version_def)
  with Inl show ?thesis by (simp add: Version_raises_ValueError)
next
  case (Inr cv)
  from resolve_maximum [OF Inr, of target versions] assms show ?thesis
    by (cases "eligible cv target versions = []") (auto simp: NoEligibleVersion_def)
qed

lemma fetch_page_raises:
  assumes "registry_answers w" and "fetch_page w url = Inl e"
  shows "is_ValueError e"
proof -
  from assms(1) obtain r where "requests_get w url = Inr r"
    unfolding registry_answers_def by blast
  with assms(2) show ?thesis
    by (auto simp: fetch_page_def split: if_splits)
qed

lemma fetch_page_releases:
  assumes "registry_answers w" and "fetch_page w url = Inr json"
  shows "json \<noteq> None"
proof -
  from assms(1) obtain r where
    "requests_get w url = Inr r" "status_code r = 200 \<longrightarrow> json_releases r \<noteq> None"
    unfolding registry_answers_def by blast
  with assms(2) show ?thesis
    by (auto simp: fetch_page_def split: if_splits)
qed

lemma check_pypi_Inr:
  assumes "check_pypi w package current_version target = Inr version"
  shows "\<exists>versions. determine_latest_version current_version target versions = Inr version"
  using assms
  by (auto simp: check_pypi_def Let_def split: sum.splits option.splits if_splits)

lemma check_pypi_raises:
  assumes "registry_answers w" and "check_pypi w package current_version target = Inl e"
  shows "is_ValueError e"
proof (cases "fetch_page w (INDEX @ ''/'' @ package @ ''/json'')")
  case (Inl e')
  with assms(2) have "e = e'" by (simp add: check_pypi_def)
  with Inl assms(1) show ?thesis by (auto dest: fetch_page_raises)
next
  case (Inr json)
  with assms(1) obtain versions where j: "json = Some versions"
    by (auto dest: fetch_page_releases)
  show ?thesis
  proof (cases "determine_latest_version current_version target versions")
    case (Inl e')
    with Inr j assms(2) have "e = e'" by (simp add: check_pypi_def)
    with Inl show ?thesis by (auto dest: determine_latest_version_raises)
  next
    case inr: (Inr version)
    then have "version \<in> set versions" by (auto dest: resolve_result_known)
    with Inr j inr assms(2) show ?thesis by (simp add: check_pypi_def)
  qed
qed

lemma print_new_version_raises:
  assumes "registry_answers w" and "isfile w path"
    and "print_new_version w path target drv_name_path = Inl e"
  shows "is_ValueError e"
proof -
  from assms(2) obtain body where t: "files w path = Some body"
    by (auto simp: isfile_def)
  show ?thesis
  proof (cases "get_unique_value ''pname'' body")
    case (Inl e')
    with t assms(3) have "e = e'" by (simp add: print_new_version_def)
    with Inl show ?thesis by (auto dest: get_unique_value_raises)
  next
    case pname: (Inr pname)
    show ?thesis
    proof (cases "get_unique_value ''version'' body")
      case (Inl e')
      with t pname assms(3) have "e = e'" by (simp add: print_new_version_def)
      with Inl show ?thesis by (auto dest: get_unique_value_raises)
    next
      case version: (Inr version)
      show ?thesis
      proof (cases "check_pypi w pname version target")
        case (Inl e')
        with t pname version assms(3) have "e = e'" by (simp add: print_new_version_def)
        with Inl assms(1) show ?thesis by (auto dest: check_pypi_raises)
      next
        case new: (Inr new_version)
        with t pname version assms(3) show ?thesis
          by (auto simp: print_new_version_def Downgrade_def
              split: if_splits sum.splits dest: Version_raises_ValueError)
      qed
    qed
  qed
qed

lemma update_returns:
  assumes "registry_answers w"
  shows "returns (update w path target drv_name_path)"
proof -
  define p where "p = (if isdir w path then os_path_join path ''default.nix'' else path)"
  show ?thesis
  proof (cases "isfile w p \<and> endswith p ''.nix''")
    case False
    then show ?thesis
      by (auto simp: update_def Let_def p_def returns_def)
  next
    case True
    show ?thesis
    proof (cases "print_new_version w p target drv_name_path")
      case (Inl e)
      with assms True have "is_ValueError e" by (auto dest: print_new_version_raises)
      with Inl True show ?thesis
        by (simp add: update_def Let_def p_def [symmetric] returns_def)
    next
      case (Inr r)
      with True show ?thesis
        by (cases r) (simp add: update_def Let_def p_def [symmetric] returns_def)
    qed
  qed
qed

lemma pool_map_returns:
  assumes "\<forall>p \<in> set ps. returns (f p)"
  shows "pool_map f ps = Inr (map (\<lambda>p. result_of (f p)) ps, concat (map (\<lambda>p. output_of (f p)) ps))"
  using assms
proof (induction ps)
  case Nil
  then show ?case by simp
next
  case (Cons p ps)
  then obtain b out where "f p = Inr (b, out)"
    by (cases "f p") (auto simp: returns_def)
  with Cons show ?case
    by (simp add: result_of_def output_of_def)
qed

lemma count_true: "sum_list (map (\<lambda>b. if b then 1 else 0) (filter (\<lambda>b. b) bs)) = length (filter (\<lambda>b. b) bs)"
  by (induction bs) auto

lemma main_returns:
  assumes "\<forall>p \<in> set packages. returns (update w p target drv_name_path)"
  shows "main w target drv_name_path packages =
           Inr \<lparr>checked = length packages,
                updated = length (filter (\<lambda>p. result_of (update w p target drv_name_path)) packages),
                report = concat (map (\<lambda>p. output_of (update w p target drv_name_path)) packages)\<rparr>"
proof -
  from pool_map_returns [of packages "\<lambda>pkg. update w pkg target drv_name_path", OF assms]
  show ?thesis
    by (simp add: main_def count_true filter_map comp_def)
qed

text \<open>
  A world with two packages: the file of \<^verbatim>\<open>/pkgs/foo\<close> declares \<open>pname\<close> twice, on two
  lines, the file of \<^verbatim>\<open>/pkgs/bar\<close> declares \<^verbatim>\<open>bar\<close> at \<^verbatim>\<open>1.0.0\<close>; the registry answers every
  request with status 200 and the known versions \<^verbatim>\<open>1.0.0\<close> and \<^verbatim>\<open>1.1.0\<close>.
\<close>

definition mixed_world :: world where
  "mixed_world =
     \<lparr>isdir = (\<lambda>p. p = ''/pkgs/foo'' \<or> p = ''/pkgs/bar''),
      files = (\<lambda>p. if p = ''/pkgs/foo/default.nix''
                    then Some (nix_file ''foo'' ''1.0.0'' @ nix_file ''foo2'' ''1.0.0'')
                    else if p = ''/pkgs/bar/default.nix'' then Some (nix_file ''bar'' ''1.0.0'')
                    else None),
      requests_get = (\<lambda>url. Inr \<lparr>status_code = 200, json_releases = Some [''1.0.0'', ''1.1.0'']\<rparr>),
      check_output = (\<lambda>cmd. ''bar-1.0.0'' @ [CHR 0x0A])\<rparr>"

lemma determine_latest_version_current:
  "determine_latest_version current target versions = Inr r \<Longrightarrow> \<exists>cv. Version current = Inr cv"
  by (cases "Version current") (auto simp: determine_latest_version_def)

text \<open>
  C5 (counterexample). The file declares \<^verbatim>\<open>1.2.0\<close> and the registry knows \<^verbatim>\<open>1.2\<close> only. The
  resolved version \<^verbatim>\<open>1.2\<close> equals the declared one as a version (the release vectors
  are equal up to trailing zeros) and is not less than it, yet the outcome is not a no-op
  but the downgrade error: the code compares the two strings for the no-op and tests
  \<^verbatim>\<open><=\<close> for the downgrade.
\<close>

theorem equal_versions_downgrade_counterexample:
  "check_pypi (foo_world ''1.2.0'' [''1.2''] []) ''foo'' ''1.2.0'' Major = Inr ''1.2''
   \<and> (case (Version ''1.2'', Version ''1.2.0'') of
         (Inr resolved, Inr declared) \<Rightarrow>
           Version_eq resolved declared \<and> \<not> Version_lt resolved declared
       | _ \<Rightarrow> False)
   \<and> print_new_version (foo_world ''1.2.0'' [''1.2''] []) ''/pkgs/foo/default.nix'' Major
        ''drv_names.txt'' = Inl (Downgrade ''foo'')"
  by code_simp

text \<open>
  C5 (as amended). Once the name and the declared version are extracted and the resolver
  has returned, both the declared and the resolved string parse, and
  \<^verbatim>\<open>_print_new_version\<close> returns \<^verbatim>\<open>False\<close> without a report line (a no-op) when the
  resolved string is the declared string, raises the downgrade error exactly when the two
  strings differ and the resolved version is less than or equal to the declared one in
  the order of versions, and otherwise goes on to look up the identifier.
\<close>

theorem print_new_version_outcome:
  assumes "files w path = Some body"
    and "get_unique_value ''pname'' body = Inr pname"
    and "get_unique_value ''version'' body = Inr version"
    and "check_pypi w pname version target = Inr new_version"
  shows "\<exists>nv ov. Version new_version = Inr nv \<and> Version version = Inr ov
       \<and> (new_version = version \<longrightarrow>
            print_new_version w path target drv_name_path = Inr (Some False, []))
       \<and> (print_new_version w path target drv_name_path = Inl (Downgrade pname)
            \<longleftrightarrow> new_version \<noteq> version \<and> Version_le nv ov)
       \<and> (new_version \<noteq> version \<and> \<not> Version_le nv ov \<longrightarrow>
            print_new_version w path target drv_name_path
              = Inr (lookup_and_report w drv_name_path pname version new_version))"
proof -
  from assms(4) obtain versions where
    d: "determine_latest_version version target versions = Inr new_version"
    by (auto dest: check_pypi_Inr)
  then obtain ov where ov: "Version version = Inr ov"
    by (auto dest: determine_latest_version_current)
  from d have "is_valid_version new_version"
    by (auto dest: resolve_result_known)
  then obtain nv where nv: "Version new_version = Inr nv"
    by (auto simp: is_valid_version_iff)
  have "new_version = version \<longrightarrow>
            print_new_version w path target drv_name_path = Inr (Some False, [])"
    using assms by (simp add: print_new_version_def)
  moreover have "print_new_version w path target drv_name_path = Inl (Downgrade pname)
            \<longleftrightarrow> new_version \<noteq> version \<and> Version_le nv ov"
    using assms nv ov by (simp add: print_new_version_def)
  moreover have "new_version \<noteq> version \<and> \<not> Version_le nv ov \<longrightarrow>
            print_new_version w path target drv_name_path
              = Inr (lookup_and_report w drv_name_path pname version new_version)"
    using assms nv ov by (simp add: print_new_version_def)
  ultimately show ?thesis
    using nv ov by blast
qed

theorem print_new_version_outcome_witness:
  "files (foo_world ''1.0.0'' [''1.0.0'', ''1.1.0'', ''2.0.0''] (''foo-1.0.0'' @ [CHR 0x0A]))
      ''/pkgs/foo/default.nix'' = Some (nix_file ''foo'' ''1.0.0'')
   \<and> get_unique_value ''pname'' (nix_file ''foo'' ''1.0.0'') = Inr ''foo''
   \<and> get_unique_value ''version'' (nix_file ''foo'' ''1.0.0'') = Inr ''1.0.0''
   \<and> check_pypi (foo_world ''1.0.0'' [''1.0.0'', ''1.1.0'', ''2.0.0''] (''foo-1.0.0'' @ [CHR 0x0A]))
        ''foo'' ''1.0.0'' Minor = Inr ''1.1.0''
   \<and> print_new_version
        (foo_world ''1.0.0'' [''1.0.0'', ''1.1.0'', ''2.0.0''] (''foo-1.0.0'' @ [CHR 0x0A]))
        ''/pkgs/foo/default.nix'' Minor ''drv_names.txt''
       = Inr (None, [''foo 1.0.0 1.1.0 https://pypi.org/project/foo/''])"
proof -
  define w where
    "w = foo_world ''1.0.0'' [''1.0.0'', ''1.1.0'', ''2.0.0''] (''foo-1.0.0'' @ [CHR 0x0A])"
  have f: "files w ''/pkgs/foo/default.nix'' = Some (nix_file ''foo'' ''1.0.0'')"
    by (simp add: w_def foo_world_def)
  have p: "get_unique_value ''pname'' (nix_file ''foo'' ''1.0.0'') = Inr ''foo''"
    by code_simp
  have v: "get_unique_value ''version'' (nix_file ''foo'' ''1.0.0'') = Inr ''1.0.0''"
    by code_simp
  have c: "check_pypi w ''foo'' ''1.0.0'' Minor = Inr ''1.1.0''"
    unfolding w_def by code_simp
  have n: "Version ''1.1.0'' = Inr \<lparr>epoch = 0, release = [1, 1, 0], dev = None, pre = None,
      post = None, local = None, raw_version = ''1.1.0''\<rparr>"
    by code_simp
  have o: "Version ''1.0.0'' = Inr \<lparr>epoch = 0, release = [1, 0, 0], dev = None, pre = None,
      post = None, local = None, raw_version = ''1.0.0''\<rparr>"
    by code_simp
  have l: "\<not> Version_le \<lparr>epoch = 0, release = [1, 1, 0], dev = None, pre = None,
      post = None, local = None, raw_version = ''1.1.0''\<rparr>
      \<lparr>epoch = 0, release = [1, 0, 0], dev = None, pre = None,
      post = None, local = None, raw_version = ''1.0.0''\<rparr>"
    by code_simp
  have r: "lookup_and_report w ''drv_names.txt'' ''foo'' ''1.0.0'' ''1.1.0''
      = (None, [''foo 1.0.0 1.1.0 https://pypi.org/project/foo/''])"
    unfolding w_def by code_simp
  from print_new_version_outcome [OF f p v c, of "''drv_names.txt''"] n o l
  have "print_new_version w ''/pkgs/foo/default.nix'' Minor ''drv_names.txt''
      = Inr (lookup_and_report w ''drv_names.txt'' ''foo'' ''1.0.0'' ''1.1.0'')"
    by auto
  with f p v c r show ?thesis
    unfolding w_def by simp
qed

text \<open>
  C9 (counterexample). In \<open>offline_world\<close> the request for \<^verbatim>\<open>foo\<close> raises a connection error,
  which is no \<^verbatim>\<open>ValueError\<close>: \<^verbatim>\<open>_update\<close> does not catch it, \<^verbatim>\<open>main\<close> ends with this exception
  instead of its summary, and the exit status is not 0. The package \<^verbatim>\<open>bar\<close> alone is
  processed without error.
\<close>

theorem connection_error_aborts_counterexample:
  "update offline_world ''/pkgs/foo'' Major ''drv_names.txt''
     = Inl (ConnectionError ''https://pypi.io/pypi/foo/json'')
   \<and> main offline_world Major ''drv_names.txt'' [''/pkgs/foo'', ''/pkgs/bar'']
       = Inl (ConnectionError ''https://pypi.io/pypi/foo/json'')
   \<and> exit_status (main offline_world Major ''drv_names.txt'' [''/pkgs/foo'', ''/pkgs/bar'']) = 1
   \<and> main offline_world Major ''drv_names.txt'' [''/pkgs/bar'']
       = Inr \<lparr>checked = 1, updated = 1,
              report = [''bar 1.0.0 1.1.0 https://pypi.org/project/bar/'']\<rparr>"
  by code_simp

text \<open>
  C9 (as amended). A failure of one package that is raised as a \<^verbatim>\<open>ValueError\<close> (an
  extraction error, a response with a status other than 200, a version that does not
  parse, no eligible version, a downgrade) is caught by \<^verbatim>\<open>_update\<close>, which returns
  \<^verbatim>\<open>False\<close>. When every call of \<^verbatim>\<open>_update\<close> returns, \<^verbatim>\<open>main\<close> reaches its summary, each
  package contributes its own result and its own output whatever the others did, and the
  exit status is 0. That is the case, for every batch, when the registry answers every
  request and its answers with status 200 have the releases: then no exception other than
  a \<^verbatim>\<open>ValueError\<close> arises.
\<close>

theorem value_errors_isolated:
  "(\<forall>e. \<not> isdir w path \<and> isfile w path \<and> endswith path ''.nix''
         \<and> print_new_version w path target drv_name_path = Inl e \<and> is_ValueError e
         \<longrightarrow> update w path target drv_name_path = Inr (False, []))
   \<and> ((\<forall>p \<in> set packages. returns (update w p target drv_name_path)) \<longrightarrow>
         main w target drv_name_path packages =
           Inr \<lparr>checked = length packages,
                updated = length (filter (\<lambda>p. result_of (update w p target drv_name_path)) packages),
                report = concat (map (\<lambda>p. output_of (update w p target drv_name_path)) packages)\<rparr>
         \<and> exit_status (main w target drv_name_path packages) = 0)
   \<and> (registry_answers w \<longrightarrow>
         (\<forall>p. returns (update w p target drv_name_path))
         \<and> exit_status (main w target drv_name_path packages) = 0)"
proof -
  have a: "\<forall>e. \<not> isdir w path \<and> isfile w path \<and> endswith path ''.nix''
         \<and> print_new_version w path target drv_name_path = Inl e \<and> is_ValueError e
         \<longrightarrow> update w path target drv_name_path = Inr (False, [])"
    by (simp add: update_def)
  have b: "main w target drv_name_path packages =
           Inr \<lparr>checked = length packages,
                updated = length (filter (\<lambda>p. result_of (update w p target drv_name_path)) packages),
                report = concat (map (\<lambda>p. output_of (update w p target drv_name_path)) packages)\<rparr>
         \<and> exit_status (main w target drv_name_path packages) = 0"
    if "\<forall>p \<in> set packages. returns (update w p target drv_name_path)"
    using main_returns [OF that] by (simp add: exit_status_def)
  have c: "(\<forall>p. returns (update w p target drv_name_path))
         \<and> exit_status (main w target drv_name_path packages) = 0"
    if "registry_answers w"
  proof -
    from that have r: "\<forall>p. returns (update w p target drv_name_path)"
      by (simp add: update_returns)
    then have "\<forall>p \<in> set packages. returns (update w p target drv_name_path)"
      by blast
    from b [OF this] r show ?thesis by blast
  qed
  from a b c show ?thesis by blast
qed

theorem value_errors_isolated_witness:
  "registry_answers mixed_world
   \<and> print_new_version mixed_world ''/pkgs/foo/default.nix'' Major ''drv_names.txt''
       = Inl (AmbiguousAttribute ''pname'')
   \<and> update mixed_world ''/pkgs/foo'' Major ''drv_names.txt'' = Inr (False, [])
   \<and> main mixed_world Major ''drv_names.txt'' [''/pkgs/foo'', ''/pkgs/bar'']
       = Inr \<lparr>checked = 2, updated = 1,
              report = [''bar 1.0.0 1.1.0 https://pypi.org/project/bar/'']\<rparr>
   \<and> exit_status (main mixed_world Major ''drv_names.txt'' [''/pkgs/foo'', ''/pkgs/bar'']) = 0"
proof -
  have r: "registry_answers mixed_world"
    by (simp add: registry_answers_def mixed_world_def)
  have p: "print_new_version mixed_world ''/pkgs/foo/default.nix'' Major ''drv_names.txt''
       = Inl (AmbiguousAttribute ''pname'')"
    by code_simp
  have u: "update mixed_world ''/pkgs/foo'' Major ''drv_names.txt'' = Inr (False, [])"
    by code_simp
  have m: "main mixed_world Major ''drv_names.txt'' [''/pkgs/foo'', ''/pkgs/bar'']
       = Inr \<lparr>checked = 2, updated = 1,
              report = [''bar 1.0.0 1.1.0 https://pypi.org/project/bar/'']\<rparr>"
    by code_simp
  from value_errors_isolated
         [of mixed_world "''/pkgs/foo/default.nix''" Major "''drv_names.txt''"
             "[''/pkgs/foo'', ''/pkgs/bar'']"] r
  have "exit_status (main mixed_world Major ''drv_names.txt'' [''/pkgs/foo'', ''/pkgs/bar'']) = 0"
    by blast
  with r p u m show ?thesis by blast
qed

text \<open>
  C3 (the code at the failing input). The file declares \<^verbatim>\<open>foo\<close> at \<^verbatim>\<open>1.0.0\<close> and the
  registry knows \<^verbatim>\<open>1.0.0\<close> only. \<^verbatim>\<open>_print_new_version\<close> finds the package at its latest
  version and returns \<^verbatim>\<open>False\<close> without a report line; \<^verbatim>\<open>_update\<close> drops that value and
  returns \<^verbatim>\<open>True\<close>; \<^verbatim>\<open>main\<close> counts the package as updated, with an empty report.
\<close>

theorem noop_counted_as_updated:
  "print_new_version (foo_world ''1.0.0'' [''1.0.0''] (''foo-1.0.0'' @ [CHR 0x0A]))
      ''/pkgs/foo/default.nix'' Major ''drv_names.txt'' = Inr (Some False, [])
   \<and> update (foo_world ''1.0.0'' [''1.0.0''] (''foo-1.0.0'' @ [CHR 0x0A]))
      ''/pkgs/foo'' Major ''drv_names.txt'' = Inr (True, [])
   \<and> main (foo_world ''1.0.0'' [''1.0.0''] (''foo-1.0.0'' @ [CHR 0x0A]))
      Major ''drv_names.txt'' [''/pkgs/foo'']
      = Inr \<lparr>checked = 1, updated = 1, report = []\<rparr>"
  by code_simp

end
